theory Spec2Isabelle
  imports Complex_Main "HOL-Library.Word"
begin

section \<open>Strings\<close>

text \<open>
  A JavaScript string is a sequence of UTF-16 code units; \<open>length\<close> counts code units, as
  the \<open>length\<close> property and the \<open>maxLength\<close> attribute do. Literals of the source are
  ASCII and are written through \<open>ascii\<close>.
\<close>

type_synonym jsstring = "16 word list"

definition ascii :: "string \<Rightarrow> jsstring" where
  "ascii s = map of_char s"

text \<open>
  \<open>String.prototype.trim\<close> strips WhiteSpace and LineTerminator code points from both
  ends: TAB, LF, VT, FF, CR, SP, NBSP, U+1680, U+2000 to U+200A, U+2028, U+2029, U+202F,
  U+205F, U+3000 and U+FEFF. All of them are single code units.
\<close>

definition isWhiteSpace :: "16 word \<Rightarrow> bool" where
  "isWhiteSpace c \<longleftrightarrow>
     c = 9 \<or> c = 10 \<or> c = 11 \<or> c = 12 \<or> c = 13 \<or> c = 32 \<or> c = 160 \<or> c = 5760 \<or>
     (8192 \<le> c \<and> c \<le> 8202) \<or> c = 8232 \<or> c = 8233 \<or> c = 8239 \<or> c = 8287 \<or>
     c = 12288 \<or> c = 65279"

definition trim :: "jsstring \<Rightarrow> jsstring" where
  "trim s = rev (dropWhile isWhiteSpace (rev (dropWhile isWhiteSpace s)))"

section \<open>Data model\<close>

text \<open>
  The interfaces \<open>BluetoothDevice\<close> and \<open>Message\<close> of the page component. The fields
  \<open>id\<close>, \<open>name\<close>, \<open>type\<close>, \<open>connected\<close> and \<open>rssi\<close> of a device are written with
  the prefix \<open>dev_\<close>, and the \<open>id\<close> of a message is \<open>msg_id\<close>.
\<close>

datatype deviceType = Phone | Laptop | Headphones | UnknownType

record BluetoothDevice =
  dev_id :: jsstring
  dev_name :: jsstring
  dev_type :: deviceType
  dev_connected :: bool
  dev_rssi :: int

text \<open>
  A \<open>Date\<close> object is represented by the text its \<open>toISOString\<close> method yields.
  \<open>JSON.stringify\<close> writes a \<open>Date\<close> as that text and \<open>JSON.parse\<close> does not turn
  it back into an object, so a message read from storage carries a plain string in its
  \<open>timestamp\<close> field.
\<close>

datatype jsdate = DateObject jsstring | DateString jsstring

record Message =
  msg_id :: jsstring
  deviceId :: jsstring
  deviceName :: jsstring
  content :: jsstring
  timestamp :: jsdate
  sent :: bool

section \<open>Numbers\<close>

text \<open>
  A Number is an IEEE 754 binary64. The numbers of this component are finite and not
  negative; such a number is \<open>mant * 2 ^ expo\<close> with a significand \<open>mant\<close> below
  \<open>2 ^ 53\<close> and an exponent \<open>expo\<close> from -1074 to 971. Two records with the same
  \<open>valueOf\<close> are the same number.
\<close>

record double =
  mant :: nat
  expo :: int

definition valueOf :: "double \<Rightarrow> rat" where
  "valueOf d = of_nat (mant d) * 2 powi expo d"

definition isDouble :: "double \<Rightarrow> bool" where
  "isDouble d \<longleftrightarrow> mant d < 2 ^ 53 \<and> - 1074 \<le> expo d \<and> expo d \<le> 971"

text \<open>The integer \<open>n\<close> as a number, for \<open>n\<close> below \<open>2 ^ 53\<close>.\<close>

definition number :: "nat \<Rightarrow> double" where
  "number n = \<lparr>mant = n, expo = 0\<rparr>"

text \<open>The number of binary digits of \<open>n\<close>.\<close>

fun bitLength :: "nat \<Rightarrow> nat" where
  "bitLength n = (if n = 0 then 0 else Suc (bitLength (n div 2)))"

declare bitLength.simps [simp del]

text \<open>
  \<open>m / 2 ^ s\<close> rounded to the nearest integer, a tie going to the even one.
\<close>

definition roundHalfEven :: "nat \<Rightarrow> nat \<Rightarrow> nat" where
  "roundHalfEven m s =
     (let q = m div 2 ^ s; r = 2 * (m mod 2 ^ s) in
        if r < 2 ^ s \<or> (r = 2 ^ s \<and> even q) then q else q + 1)"

text \<open>
  The exact result \<open>m * 2 ^ e\<close> of an operation, rounded to the nearest binary64, ties
  to even, as every arithmetic operator of the language rounds. The low \<open>s\<close> bits are
  rounded away when \<open>m\<close> has \<open>s\<close> digits more than 53, or when \<open>e\<close> is \<open>s\<close>
  below the least exponent -1074. A significand that rounds up to \<open>2 ^ 53\<close> is kept
  as it is: it stands for \<open>2 ^ 52\<close> with the next exponent. An exact result of
  \<open>2 ^ 1024\<close> or more would round to Infinity, which is not modelled: the exact results
  of this component are at most 3000 (\<open>exact_results_bounded\<close> below).
\<close>

definition roundToDouble :: "nat \<Rightarrow> int \<Rightarrow> double" where
  "roundToDouble m e =
     (let s = max (int (bitLength m) - 53) (- 1074 - e) in
        if s \<le> 0 then \<lparr>mant = m, expo = e\<rparr>
        else \<lparr>mant = roundHalfEven m (nat s), expo = e + s\<rparr>)"

text \<open>The operators \<open>*\<close> and \<open>+\<close>, and \<open>Math.floor\<close>, whose result is an integer.\<close>

definition multiply :: "double \<Rightarrow> double \<Rightarrow> double" where
  "multiply a b = roundToDouble (mant a * mant b) (expo a + expo b)"

definition add :: "double \<Rightarrow> double \<Rightarrow> double" where
  "add a b =
     (let e = min (expo a) (expo b) in
        roundToDouble (mant a * 2 ^ nat (expo a - e) + mant b * 2 ^ nat (expo b - e)) e)"

definition mathFloor :: "double \<Rightarrow> int" where
  "mathFloor d =
     (if 0 \<le> expo d then int (mant d * 2 ^ nat (expo d)) else int (mant d div 2 ^ nat (- expo d)))"

text \<open>
  \<open>Math.random()\<close> returns a number that is at least 0 and less than 1; which one is
  left to the implementation, so a draw is any such number.
\<close>

typedef unit_interval = "{d :: double. isDouble d \<and> valueOf d < 1}"
  by (rule exI [of _ "\<lparr>mant = 0, expo = 0\<rparr>"]) (simp add: isDouble_def valueOf_def)

definition draw :: "unit_interval \<Rightarrow> double" where
  "draw u = Rep_unit_interval u"

section \<open>Timers and the state of the component\<close>

text \<open>
  A pending \<open>setTimeout\<close>: the time, in milliseconds on the clock of the event loop,
  before which it does not fire (the time of the call plus the delay it was given), and
  its callback. The callbacks of the component are the end of the scan animation, the
  welcome message of a connection (the closure holds the device), the scroll after a send
  and the simulated response (the closure holds the device that was selected at the
  send).
\<close>

datatype timerCallback =
    ScanDone
  | WelcomeCallback BluetoothDevice
  | ScrollCallback
  | ResponseCallback BluetoothDevice

record timer =
  due :: rat
  callback :: timerCallback

text \<open>
  The state of the component: its \<open>useState\<close> cells, the timers it has pending, the
  number of Bluetooth requests that have not settled and the clock of the event loop, in
  milliseconds since the mount. Toasts, the scroll position and the console are
  presentation and are left out.
\<close>

record appState =
  isScanning :: bool
  devices :: "BluetoothDevice list"
  connectedDevices :: "BluetoothDevice list"
  messages :: "Message list"
  currentMessage :: jsstring
  selectedDevice :: "BluetoothDevice option"
  bluetoothSupported :: bool
  timers :: "timer list"
  pendingRequests :: nat
  clock :: rat

definition initialState :: appState where
  "initialState =
     \<lparr>isScanning = False, devices = [], connectedDevices = [], messages = [],
      currentMessage = [], selectedDevice = None, bluetoothSupported = False,
      timers = [], pendingRequests = 0, clock = 0\<rparr>"

text \<open>\<open>setTimeout(callback, ms)\<close>: the timer joins the pending ones.\<close>

definition setTimeout :: "timerCallback \<Rightarrow> rat \<Rightarrow> appState \<Rightarrow> appState" where
  "setTimeout cb ms s = s\<lparr>timers := timers s @ [\<lparr>due = clock s + ms, callback = cb\<rparr>]\<rparr>"

definition simulatedDevices :: "BluetoothDevice list" where
  "simulatedDevices =
     [\<lparr>dev_id = ascii ''1'', dev_name = ascii ''Alice's iPhone'', dev_type = Phone,
        dev_connected = False, dev_rssi = - 45\<rparr>,
      \<lparr>dev_id = ascii ''2'', dev_name = ascii ''Bob's MacBook'', dev_type = Laptop,
        dev_connected = False, dev_rssi = - 62\<rparr>,
      \<lparr>dev_id = ascii ''3'', dev_name = ascii ''Charlie's Android'', dev_type = Phone,
        dev_connected = False, dev_rssi = - 38\<rparr>,
      \<lparr>dev_id = ascii ''4'', dev_name = ascii ''AirPods Pro'', dev_type = Headphones,
        dev_connected = False, dev_rssi = - 55\<rparr>]"

section \<open>Device registry\<close>

text \<open>
  The state update of \<open>scanForDevices\<close>:
  \<^verbatim>\<open>setDevices((prev) => { const exists = prev.find((d) => d.id === newDevice.id)
                       if (!exists) { return [...prev, newDevice] }
                       return prev })\<close>
\<close>

definition upsertDiscovered :: "BluetoothDevice \<Rightarrow> BluetoothDevice list \<Rightarrow> BluetoothDevice list" where
  "upsertDiscovered newDevice prev =
     (case find (\<lambda>d. dev_id d = dev_id newDevice) prev of
        None \<Rightarrow> prev @ [newDevice]
      | Some exists \<Rightarrow> prev)"

text \<open>
  What \<open>navigator.bluetooth.requestDevice\<close> settles to: a rejection (the chooser was
  cancelled or the request failed), or a device with its \<open>id\<close> and its optional
  \<open>name\<close>.
\<close>

datatype requestOutcome = Rejected | Chosen jsstring "jsstring option"

definition newDevice :: "jsstring \<Rightarrow> jsstring \<Rightarrow> jsstring \<Rightarrow> BluetoothDevice" where
  "newDevice did nm rid =
     \<lparr>dev_id = (if did = [] then rid else did), dev_name = nm, dev_type = UnknownType,
      dev_connected = False, dev_rssi = - 50\<rparr>"

text \<open>
  \<open>scanForDevices\<close> up to its \<open>await\<close>: the page is scanning, and with Bluetooth
  support a request is pending; without it the function goes straight to its end, the
  timer of the scan animation.
\<close>

definition scanForDevices :: "appState \<Rightarrow> appState" where
  "scanForDevices s =
     (let s1 = s\<lparr>isScanning := True\<rparr>
      in if bluetoothSupported s then s1\<lparr>pendingRequests := Suc (pendingRequests s1)\<rparr>
         else setTimeout ScanDone 2000 s1)"

text \<open>
  The rest of \<open>scanForDevices\<close>, run when the request settles, with the outcome of the
  request and the text of \<open>Math.random().toString()\<close> as inputs. A rejection is caught
  and logged. A device without a name, or with the empty name, is dropped; an empty id is
  replaced by the random text. The timer of the scan animation follows in every case.
\<close>

definition scanSettled :: "requestOutcome \<Rightarrow> jsstring \<Rightarrow> appState \<Rightarrow> appState" where
  "scanSettled outcome rid s =
     (let s1 = s\<lparr>pendingRequests := pendingRequests s - 1\<rparr>;
          s2 = (case outcome of
                  Rejected \<Rightarrow> s1
                | Chosen did None \<Rightarrow> s1
                | Chosen did (Some nm) \<Rightarrow>
                    if nm = [] then s1
                    else s1\<lparr>devices := upsertDiscovered (newDevice did nm rid) (devices s1)\<rparr>)
      in setTimeout ScanDone 2000 s2)"

section \<open>Sessions\<close>

text \<open>
  \<open>connectToDevice\<close>. Nothing in its \<open>try\<close> block throws, so the \<open>catch\<close> branch is
  never taken. The function takes a device object and does not look it up anywhere.
\<close>

definition connectToDevice :: "BluetoothDevice \<Rightarrow> appState \<Rightarrow> appState" where
  "connectToDevice device s =
     setTimeout (WelcomeCallback device) 1000
       (s\<lparr>devices :=
            map (\<lambda>d. if dev_id d = dev_id device then d\<lparr>dev_connected := True\<rparr> else d) (devices s),
          connectedDevices := connectedDevices s @ [device\<lparr>dev_connected := True\<rparr>]\<rparr>)"

definition disconnectDevice :: "BluetoothDevice \<Rightarrow> appState \<Rightarrow> appState" where
  "disconnectDevice device s =
     s\<lparr>devices :=
         map (\<lambda>d. if dev_id d = dev_id device then d\<lparr>dev_connected := False\<rparr> else d) (devices s),
       connectedDevices := filter (\<lambda>d. dev_id d \<noteq> dev_id device) (connectedDevices s),
       selectedDevice :=
         (case selectedDevice s of
            None \<Rightarrow> None
          | Some sd \<Rightarrow> if dev_id sd = dev_id device then None else Some sd)\<rparr>"

text \<open>The state setters the markup calls directly.\<close>

definition setSelectedDevice :: "BluetoothDevice option \<Rightarrow> appState \<Rightarrow> appState" where
  "setSelectedDevice v s = s\<lparr>selectedDevice := v\<rparr>"

definition setCurrentMessage :: "jsstring \<Rightarrow> appState \<Rightarrow> appState" where
  "setCurrentMessage v s = s\<lparr>currentMessage := v\<rparr>"

section \<open>Conversations\<close>

definition getMessagesForDevice :: "appState \<Rightarrow> jsstring \<Rightarrow> Message list" where
  "getMessagesForDevice s did = filter (\<lambda>m. deviceId m = did) (messages s)"

text \<open>The update \<open>setMessages((prev) => [...prev, m])\<close> that every append goes through.\<close>

definition appendMessage :: "Message \<Rightarrow> appState \<Rightarrow> appState" where
  "appendMessage m s = s\<lparr>messages := messages s @ [m]\<rparr>"

text \<open>
  \<open>sendMessage\<close>. Its inputs from the environment are the text of
  \<open>Math.random().toString()\<close>, the current date and the draw for the delay of the
  response. The object \<open>newMessage\<close> of the source is \<open>outboundMessage\<close> here. The
  guard \<open>!currentMessage.trim() || !selectedDevice\<close> returns before anything is done;
  past it, the message is appended, the input is cleared, and the scroll and the response
  are scheduled, in this order.
\<close>

definition outboundMessage :: "BluetoothDevice \<Rightarrow> jsstring \<Rightarrow> jsstring \<Rightarrow> jsstring \<Rightarrow> Message" where
  "outboundMessage sd text rid now =
     \<lparr>msg_id = rid, deviceId = dev_id sd, deviceName = dev_name sd, content = trim text,
      timestamp = DateObject now, sent = True\<rparr>"

text \<open>The delay \<open>1000 + Math.random() * 2000\<close> of the response, in milliseconds.\<close>

definition responseDelay :: "unit_interval \<Rightarrow> double" where
  "responseDelay u = add (number 1000) (multiply (draw u) (number 2000))"

definition sendMessage :: "jsstring \<Rightarrow> jsstring \<Rightarrow> unit_interval \<Rightarrow> appState \<Rightarrow> appState" where
  "sendMessage rid now u s =
     (case selectedDevice s of
        None \<Rightarrow> s
      | Some sd \<Rightarrow>
          if trim (currentMessage s) = [] then s
          else
            setTimeout (ResponseCallback sd) (valueOf (responseDelay u))
              (setTimeout ScrollCallback 100
                 ((appendMessage (outboundMessage sd (currentMessage s) rid now) s)
                    \<lparr>currentMessage := []\<rparr>)))"

definition responses :: "jsstring list" where
  "responses =
     [ascii ''Got your message!'',
      ascii ''Thanks for reaching out via Bluetooth!'',
      ascii ''This offline chat is pretty cool!'',
      ascii ''No internet needed for this conversation!'',
      ascii ''Bluetooth messaging works great!'',
      ascii ''I received your message loud and clear!'',
      ascii ''Peer-to-peer communication is awesome!'']"

definition welcomeMessage :: "BluetoothDevice \<Rightarrow> jsstring \<Rightarrow> jsstring \<Rightarrow> Message" where
  "welcomeMessage device rid now =
     \<lparr>msg_id = rid, deviceId = dev_id device, deviceName = dev_name device,
      content = ascii ''Hello! I'm connected via Bluetooth.'',
      timestamp = DateObject now, sent = False\<rparr>"

text \<open>
  The index \<open>Math.floor(Math.random() * responses.length)\<close>; it is always below the
  length of the pool (\<open>responseIndex_less\<close> below), so the read is in range.
\<close>

definition responseIndex :: "unit_interval \<Rightarrow> nat" where
  "responseIndex u = nat (mathFloor (multiply (draw u) (number (length responses))))"

definition responseMessage :: "BluetoothDevice \<Rightarrow> jsstring \<Rightarrow> jsstring \<Rightarrow> unit_interval \<Rightarrow> Message" where
  "responseMessage sd rid now u =
     \<lparr>msg_id = rid, deviceId = dev_id sd, deviceName = dev_name sd,
      content = responses ! responseIndex u,
      timestamp = DateObject now, sent = False\<rparr>"

section \<open>Timers\<close>

text \<open>
  What a callback does when its timer fires. The random text, the date and the draw are
  read by the callback when it runs, not when it is scheduled.
\<close>

fun runCallback :: "timerCallback \<Rightarrow> jsstring \<Rightarrow> jsstring \<Rightarrow> unit_interval \<Rightarrow> appState \<Rightarrow> appState" where
  "runCallback ScanDone rid now u s = s\<lparr>isScanning := False\<rparr>"
| "runCallback (WelcomeCallback device) rid now u s = appendMessage (welcomeMessage device rid now) s"
| "runCallback ScrollCallback rid now u s = s"
| "runCallback (ResponseCallback sd) rid now u s = appendMessage (responseMessage sd rid now u) s"

text \<open>
  The \<open>k\<close>-th pending timer fires: it leaves the pending list and its callback runs.
  There is no result when fewer than \<open>k + 1\<close> timers are pending, or when the clock has
  not reached the time the timer is due. Any pending timer that is due may be the next to
  fire, and it may fire late, which covers every order in which the event loop can run
  the timers.
\<close>

definition fireTimer :: "nat \<Rightarrow> jsstring \<Rightarrow> jsstring \<Rightarrow> unit_interval \<Rightarrow> appState \<Rightarrow> appState option" where
  "fireTimer k rid now u s =
     (if k < length (timers s) \<and> due (timers s ! k) \<le> clock s
      then Some (runCallback (callback (timers s ! k)) rid now u
                   (s\<lparr>timers := take k (timers s) @ drop (Suc k) (timers s)\<rparr>))
      else None)"

section \<open>Snapshots\<close>

text \<open>
  The JSON values \<open>JSON.parse\<close> can return. An object is the list of its members in
  the order of the text. A number is kept as the text of its literal: no message has a
  number in it, and no arithmetic is done on one.
\<close>

datatype json =
    JNull
  | JBool bool
  | JNumber jsstring
  | JString jsstring
  | JArray "json list"
  | JObject "(jsstring \<times> json) list"

text \<open>
  \<open>JSON.stringify\<close> on strings, \<open>QuoteJSONString\<close> of the language standard: the
  string is read by code points, so a lead surrogate followed by a trail surrogate
  passes as it is; the quotation mark, the backslash and the control characters with a
  short form are written in that form; any other code unit below U+0020 and any
  surrogate on its own is written as \<open>\u\<close> and four lower-case hexadecimal digits.
\<close>

definition isLeadSurrogate :: "16 word \<Rightarrow> bool" where
  "isLeadSurrogate c \<longleftrightarrow> 55296 \<le> c \<and> c \<le> 56319"

definition isTrailSurrogate :: "16 word \<Rightarrow> bool" where
  "isTrailSurrogate c \<longleftrightarrow> 56320 \<le> c \<and> c \<le> 57343"

definition hexDigit :: "nat \<Rightarrow> 16 word" where
  "hexDigit n = (if n < 10 then 48 + of_nat n else 87 + of_nat n)"

definition unicodeEscape :: "16 word \<Rightarrow> jsstring" where
  "unicodeEscape c =
     [92, 117, hexDigit (unat c div 4096), hexDigit (unat c div 256 mod 16),
      hexDigit (unat c div 16 mod 16), hexDigit (unat c mod 16)]"

definition quoteUnit :: "16 word \<Rightarrow> jsstring" where
  "quoteUnit c =
     (if c = 8 then [92, 98]
      else if c = 9 then [92, 116]
      else if c = 10 then [92, 110]
      else if c = 12 then [92, 102]
      else if c = 13 then [92, 114]
      else if c = 34 then [92, 34]
      else if c = 92 then [92, 92]
      else if c < 32 \<or> isLeadSurrogate c \<or> isTrailSurrogate c then unicodeEscape c
      else [c])"

fun quoteChars :: "jsstring \<Rightarrow> jsstring" where
  "quoteChars [] = []"
| "quoteChars [c] = quoteUnit c"
| "quoteChars (c # d # cs) =
     (if isLeadSurrogate c \<and> isTrailSurrogate d then c # d # quoteChars cs
      else quoteUnit c @ quoteChars (d # cs))"

definition quoteJSONString :: "jsstring \<Rightarrow> jsstring" where
  "quoteJSONString s = 34 # quoteChars s @ [34]"

text \<open>
  \<open>JSON.stringify\<close> without indentation: the elements of an array and the members of
  an object are separated by a comma, a member is its quoted key, a colon and its value.
\<close>

fun commaSep :: "jsstring list \<Rightarrow> jsstring" where
  "commaSep [] = []"
| "commaSep [x] = x"
| "commaSep (x # y # ys) = x @ 44 # commaSep (y # ys)"

fun serializeJSON :: "json \<Rightarrow> jsstring" where
  "serializeJSON JNull = ascii ''null''"
| "serializeJSON (JBool b) = (if b then ascii ''true'' else ascii ''false'')"
| "serializeJSON (JNumber lit) = lit"
| "serializeJSON (JString s) = quoteJSONString s"
| "serializeJSON (JArray vs) = 91 # commaSep (map serializeJSON vs) @ [93]"
| "serializeJSON (JObject ms) =
     123 # commaSep (map (\<lambda>kv. quoteJSONString (fst kv) @ 58 # serializeJSON (snd kv)) ms) @ [125]"

text \<open>
  \<open>JSON.parse\<close>. White space (TAB, LF, CR, SP) may stand before and after every
  token. A string ends at the first quotation mark that is not escaped; a backslash
  is followed by one of \<open>" / \ b f n r t\<close> or by \<open>u\<close> and four hexadecimal digits;
  a code unit below U+0020 is refused.
\<close>

definition isJSONWhiteSpace :: "16 word \<Rightarrow> bool" where
  "isJSONWhiteSpace c \<longleftrightarrow> c = 9 \<or> c = 10 \<or> c = 13 \<or> c = 32"

definition skipWs :: "jsstring \<Rightarrow> jsstring" where
  "skipWs s = dropWhile isJSONWhiteSpace s"

definition hexValue :: "16 word \<Rightarrow> nat option" where
  "hexValue c =
     (if 48 \<le> c \<and> c \<le> 57 then Some (unat c - 48)
      else if 97 \<le> c \<and> c \<le> 102 then Some (unat c - 87)
      else if 65 \<le> c \<and> c \<le> 70 then Some (unat c - 55)
      else None)"

definition hex4 :: "16 word \<Rightarrow> 16 word \<Rightarrow> 16 word \<Rightarrow> 16 word \<Rightarrow> 16 word option" where
  "hex4 a b c d =
     (case (hexValue a, hexValue b, hexValue c, hexValue d) of
        (Some x, Some y, Some z, Some w) \<Rightarrow> Some (of_nat (((x * 16 + y) * 16 + z) * 16 + w))
      | _ \<Rightarrow> None)"

definition unescape :: "16 word \<Rightarrow> 16 word option" where
  "unescape e =
     (if e = 34 then Some 34
      else if e = 47 then Some 47
      else if e = 92 then Some 92
      else if e = 98 then Some 8
      else if e = 102 then Some 12
      else if e = 110 then Some 10
      else if e = 114 then Some 13
      else if e = 116 then Some 9
      else None)"

definition consResult :: "'a \<Rightarrow> ('a list \<times> jsstring) option \<Rightarrow> ('a list \<times> jsstring) option" where
  "consResult x r = (case r of None \<Rightarrow> None | Some (xs, rest) \<Rightarrow> Some (x # xs, rest))"

fun parseChars :: "jsstring \<Rightarrow> (jsstring \<times> jsstring) option" where
  "parseChars [] = None"
| "parseChars (c # cs) =
     (if c = 34 then Some ([], cs)
      else if c = 92 then
        (case cs of
           [] \<Rightarrow> None
         | e # cs1 \<Rightarrow>
             if e = 117 then
               (case cs1 of
                  h1 # h2 # h3 # h4 # cs2 \<Rightarrow>
                    (case hex4 h1 h2 h3 h4 of
                       None \<Rightarrow> None
                     | Some w \<Rightarrow> consResult w (parseChars cs2))
                | _ \<Rightarrow> None)
             else
               (case unescape e of
                  None \<Rightarrow> None
                | Some w \<Rightarrow> consResult w (parseChars cs1)))
      else if c < 32 then None
      else consResult c (parseChars cs))"

text \<open>
  A number literal: an optional minus sign, \<open>0\<close> or a digit sequence that does not
  start with \<open>0\<close>, an optional fraction and an optional exponent. The scan stops where
  the literal stops; what follows is for the caller to refuse.
\<close>

definition isDigit :: "16 word \<Rightarrow> bool" where
  "isDigit c \<longleftrightarrow> 48 \<le> c \<and> c \<le> 57"

definition scanDigits :: "jsstring \<Rightarrow> (jsstring \<times> jsstring) option" where
  "scanDigits s =
     (if takeWhile isDigit s = [] then None else Some (takeWhile isDigit s, dropWhile isDigit s))"

definition scanNumber :: "jsstring \<Rightarrow> (jsstring \<times> jsstring) option" where
  "scanNumber s =
     (let (sign, s1) = (case s of c # cs \<Rightarrow> if c = 45 then ([c], cs) else ([], s) | [] \<Rightarrow> ([], s)) in
      case (case s1 of
              c # cs \<Rightarrow> if c = 48 then Some ([c], cs) else scanDigits s1
            | [] \<Rightarrow> None) of
        None \<Rightarrow> None
      | Some (ip, s2) \<Rightarrow>
          (let (fp, s3) =
                 (case s2 of
                    c # cs \<Rightarrow>
                      if c = 46 then (case scanDigits cs of Some (ds, r) \<Rightarrow> (c # ds, r) | None \<Rightarrow> ([], s2))
                      else ([], s2)
                  | [] \<Rightarrow> ([], s2));
               (ep, s4) =
                 (case s3 of
                    c # cs \<Rightarrow>
                      if c = 101 \<or> c = 69 then
                        (case cs of
                           g # cs1 \<Rightarrow>
                             if g = 43 \<or> g = 45 then
                               (case scanDigits cs1 of Some (ds, r) \<Rightarrow> (c # g # ds, r) | None \<Rightarrow> ([], s3))
                             else (case scanDigits cs of Some (ds, r) \<Rightarrow> (c # ds, r) | None \<Rightarrow> ([], s3))
                         | [] \<Rightarrow> ([], s3))
                      else ([], s3)
                  | [] \<Rightarrow> ([], s3))
           in Some (sign @ ip @ fp @ ep, s4)))"

text \<open>
  Values, the elements of an array after its opening bracket, and the members of an
  object after its opening brace. The first argument bounds the number of nested calls;
  a text needs no more than its length (\<open>parseValue_serializeJSON\<close> below shows it
  for the texts \<open>serializeJSON\<close> writes), and \<open>parseJSON\<close> gives more than twice
  that. \<open>None\<close> is the \<open>SyntaxError\<close> of \<open>JSON.parse\<close>.
\<close>

fun parseValue :: "nat \<Rightarrow> jsstring \<Rightarrow> (json \<times> jsstring) option"
  and parseElements :: "nat \<Rightarrow> jsstring \<Rightarrow> (json list \<times> jsstring) option"
  and parseMembers :: "nat \<Rightarrow> jsstring \<Rightarrow> ((jsstring \<times> json) list \<times> jsstring) option"
where
  "parseValue 0 s = None"
| "parseValue (Suc n) s =
     (case skipWs s of
        [] \<Rightarrow> None
      | c # cs \<Rightarrow>
          if c = 34 then
            (case parseChars cs of None \<Rightarrow> None | Some (str, r) \<Rightarrow> Some (JString str, r))
          else if c = 91 then
            (case skipWs cs of
               [] \<Rightarrow> None
             | d # r \<Rightarrow>
                 if d = 93 then Some (JArray [], r)
                 else (case parseElements n cs of None \<Rightarrow> None | Some (vs, r1) \<Rightarrow> Some (JArray vs, r1)))
          else if c = 123 then
            (case skipWs cs of
               [] \<Rightarrow> None
             | d # r \<Rightarrow>
                 if d = 125 then Some (JObject [], r)
                 else (case parseMembers n cs of None \<Rightarrow> None | Some (ms, r1) \<Rightarrow> Some (JObject ms, r1)))
          else if take 4 (c # cs) = ascii ''true'' then Some (JBool True, drop 4 (c # cs))
          else if take 5 (c # cs) = ascii ''false'' then Some (JBool False, drop 5 (c # cs))
          else if take 4 (c # cs) = ascii ''null'' then Some (JNull, drop 4 (c # cs))
          else (case scanNumber (c # cs) of None \<Rightarrow> None | Some (lit, r) \<Rightarrow> Some (JNumber lit, r)))"
| "parseElements 0 s = None"
| "parseElements (Suc n) s =
     (case parseValue n s of
        None \<Rightarrow> None
      | Some (v, r) \<Rightarrow>
          (case skipWs r of
             [] \<Rightarrow> None
           | c # r1 \<Rightarrow>
               if c = 44 then consResult v (parseElements n r1)
               else if c = 93 then Some ([v], r1)
               else None))"
| "parseMembers 0 s = None"
| "parseMembers (Suc n) s =
     (case skipWs s of
        [] \<Rightarrow> None
      | c # cs \<Rightarrow>
          if c = 34 then
            (case parseChars cs of
               None \<Rightarrow> None
             | Some (k, r) \<Rightarrow>
                 (case skipWs r of
                    [] \<Rightarrow> None
                  | c2 # r2 \<Rightarrow>
                      if c2 = 58 then
                        (case parseValue n r2 of
                           None \<Rightarrow> None
                         | Some (v, r3) \<Rightarrow>
                             (case skipWs r3 of
                                [] \<Rightarrow> None
                              | c3 # r4 \<Rightarrow>
                                  if c3 = 44 then consResult (k, v) (parseMembers n r4)
                                  else if c3 = 125 then Some ([(k, v)], r4)
                                  else None))
                      else None))
          else None)"

definition parseJSON :: "jsstring \<Rightarrow> json option" where
  "parseJSON text =
     (case parseValue (2 * length text + 2) text of
        None \<Rightarrow> None
      | Some (v, r) \<Rightarrow> if skipWs r = [] then Some v else None)"

text \<open>
  A message as \<open>JSON.stringify\<close> sees it: an object with the six properties in the
  order of their creation, the date written as its ISO text. Reading goes the other way
  and accepts exactly the objects of this shape; the \<open>timestamp\<close> it yields is a
  string, since \<open>JSON.parse\<close> creates no \<open>Date\<close>.
\<close>

definition isoText :: "jsdate \<Rightarrow> jsstring" where
  "isoText d = (case d of DateObject ts \<Rightarrow> ts | DateString ts \<Rightarrow> ts)"

definition jsonOfMessage :: "Message \<Rightarrow> json" where
  "jsonOfMessage m =
     JObject
       [(ascii ''id'', JString (msg_id m)),
        (ascii ''deviceId'', JString (deviceId m)),
        (ascii ''deviceName'', JString (deviceName m)),
        (ascii ''content'', JString (content m)),
        (ascii ''timestamp'', JString (isoText (timestamp m))),
        (ascii ''sent'', JBool (sent m))]"

definition stringMember :: "jsstring \<Rightarrow> jsstring \<times> json \<Rightarrow> jsstring option" where
  "stringMember k kv = (case snd kv of JString str \<Rightarrow> if fst kv = k then Some str else None | _ \<Rightarrow> None)"

definition boolMember :: "jsstring \<Rightarrow> jsstring \<times> json \<Rightarrow> bool option" where
  "boolMember k kv = (case snd kv of JBool b \<Rightarrow> if fst kv = k then Some b else None | _ \<Rightarrow> None)"

definition messageOfJson :: "json \<Rightarrow> Message option" where
  "messageOfJson v =
     (case v of
        JObject ms \<Rightarrow>
          (case ms of
             [m1, m2, m3, m4, m5, m6] \<Rightarrow>
               (case (stringMember (ascii ''id'') m1, stringMember (ascii ''deviceId'') m2,
                      stringMember (ascii ''deviceName'') m3, stringMember (ascii ''content'') m4,
                      stringMember (ascii ''timestamp'') m5, boolMember (ascii ''sent'') m6) of
                  (Some i, Some d, Some n, Some c, Some t, Some b) \<Rightarrow>
                    Some \<lparr>msg_id = i, deviceId = d, deviceName = n, content = c,
                          timestamp = DateString t, sent = b\<rparr>
                | _ \<Rightarrow> None)
           | _ \<Rightarrow> None)
      | _ \<Rightarrow> None)"

definition messagesOfJson :: "json \<Rightarrow> Message list option" where
  "messagesOfJson v = (case v of JArray vs \<Rightarrow> those (map messageOfJson vs) | _ \<Rightarrow> None)"

text \<open>
  The storage of the page is the item under the key \<open>bluetooth-chat-messages\<close>:
  absent, or a text. The save effect runs after every change of \<open>messages\<close>:
  \<^verbatim>\<open>localStorage.setItem("bluetooth-chat-messages", JSON.stringify(messages))\<close>
  Storage is taken to accept every text it is given.
\<close>

type_synonym storage = "jsstring option"

definition saveEffect :: "appState \<Rightarrow> storage" where
  "saveEffect s = Some (serializeJSON (JArray (map jsonOfMessage (messages s))))"

text \<open>
  The mount effect: it records whether the browser has Bluetooth, reads the item and,
  when it is there and not the empty text, replaces \<open>messages\<close> by what
  \<open>JSON.parse\<close> makes of it, and installs the simulated devices. A text that is not
  JSON makes \<open>JSON.parse\<close> throw. A text that is JSON but not a list of messages is
  stored as it is by the source; the state then holds no message list, and the model
  reports it as \<open>NotMessages\<close>.
\<close>

datatype loadError = SyntaxError | NotMessages

definition mountEffect :: "bool \<Rightarrow> storage \<Rightarrow> appState \<Rightarrow> loadError + appState" where
  "mountEffect hasBluetooth item s =
     (let s1 = s\<lparr>bluetoothSupported := hasBluetooth\<rparr> in
      case item of
        None \<Rightarrow> Inr (s1\<lparr>devices := simulatedDevices\<rparr>)
      | Some savedMessages \<Rightarrow>
          if savedMessages = [] then Inr (s1\<lparr>devices := simulatedDevices\<rparr>)
          else
            (case parseJSON savedMessages of
               None \<Rightarrow> Inl SyntaxError
             | Some v \<Rightarrow>
                 (case messagesOfJson v of
                    None \<Rightarrow> Inl NotMessages
                  | Some ms \<Rightarrow> Inr (s1\<lparr>messages := ms, devices := simulatedDevices\<rparr>))))"

text \<open>
  For the round trip below: a value without number literals, the code units a serialized
  value of that kind can start with, the text of one member of an object, and what it
  is for a value to be read back from its own text, whatever follows it, with a bound
  of nested calls that is at least the length of the text.
\<close>

fun numberFree :: "json \<Rightarrow> bool" where
  "numberFree (JNumber lit) = False"
| "numberFree (JArray vs) = list_all numberFree vs"
| "numberFree (JObject ms) = list_all (\<lambda>kv. numberFree (snd kv)) ms"
| "numberFree v = True"

definition valueStart :: "16 word \<Rightarrow> bool" where
  "valueStart c \<longleftrightarrow> c = 110 \<or> c = 116 \<or> c = 102 \<or> c = 34 \<or> c = 91 \<or> c = 123"

definition memberText :: "jsstring \<times> json \<Rightarrow> jsstring" where
  "memberText kv = quoteJSONString (fst kv) @ 58 # serializeJSON (snd kv)"

definition parsesBack :: "json \<Rightarrow> bool" where
  "parsesBack v \<longleftrightarrow>
     (\<forall>n rest. length (serializeJSON v) \<le> n \<longrightarrow> parseValue n (serializeJSON v @ rest) = Some (v, rest))"

text \<open>
  A message as it is after a save and a load: the same, with its date as a string.
\<close>

definition revived :: "Message \<Rightarrow> Message" where
  "revived m = m\<lparr>timestamp := DateString (isoText (timestamp m))\<rparr>"

section \<open>The handlers of the page\<close>

text \<open>
  The events the markup can deliver, each with the inputs its handler reads from the
  environment:
  \<^item> a click on the Scan button (disabled while \<open>isScanning\<close>);
  \<^item> a pending Bluetooth request that settles;
  \<^item> a click on the button of the \<open>i\<close>-th row of the device list, which runs
    \<open>device.connected ? disconnectDevice(device) : connectToDevice(device)\<close>;
  \<^item> a click on the \<open>i\<close>-th row of the connected list, which runs
    \<open>setSelectedDevice(device)\<close>;
  \<^item> a change of the message input, which exists only while a device is selected and has
    \<open>maxLength={500}\<close>;
  \<^item> the Enter key in the input or a click on the Send button, which run
    \<open>sendMessage\<close> (both exist only while a device is selected);
  \<^item> a pending timer that fires;
  \<^item> time that passes, a number of milliseconds that is not negative.
  An event the page cannot deliver in a state has no result there.
\<close>

datatype event =
    ClickScan
  | RequestSettles requestOutcome jsstring
  | ClickDeviceButton nat
  | ClickConnectedRow nat
  | ChangeInput jsstring
  | SubmitMessage jsstring jsstring unit_interval
  | TimerFires nat jsstring jsstring unit_interval
  | Elapse rat

fun dispatch :: "event \<Rightarrow> appState \<Rightarrow> appState option" where
  "dispatch ClickScan s = (if isScanning s then None else Some (scanForDevices s))"
| "dispatch (RequestSettles outcome rid) s =
     (if 0 < pendingRequests s then Some (scanSettled outcome rid s) else None)"
| "dispatch (ClickDeviceButton i) s =
     (if i < length (devices s)
      then (let device = devices s ! i
            in Some (if dev_connected device then disconnectDevice device s
                     else connectToDevice device s))
      else None)"
| "dispatch (ClickConnectedRow i) s =
     (if i < length (connectedDevices s)
      then Some (setSelectedDevice (Some (connectedDevices s ! i)) s)
      else None)"
| "dispatch (ChangeInput v) s =
     (if selectedDevice s \<noteq> None \<and> length v \<le> 500 then Some (setCurrentMessage v s) else None)"
| "dispatch (SubmitMessage rid now u) s =
     (if selectedDevice s \<noteq> None then Some (sendMessage rid now u s) else None)"
| "dispatch (TimerFires k rid now u) s = fireTimer k rid now u s"
| "dispatch (Elapse ms) s = (if 0 \<le> ms then Some (s\<lparr>clock := clock s + ms\<rparr>) else None)"

fun run :: "event list \<Rightarrow> appState \<Rightarrow> appState option" where
  "run [] s = Some s"
| "run (e # es) s = (case dispatch e s of None \<Rightarrow> None | Some s' \<Rightarrow> run es s')"

text \<open>
  The states the page can be in: the state after the mount effect, for any browser and
  any list of messages the load yields (the page does not control what storage holds;
  every state the mount effect returns is of this form, \<open>mountEffect_reachable\<close>
  below), and every state an event leads to from there. Each event is handled in the
  state the events before it have left: the handlers of the page are those of its
  latest render.
\<close>

inductive reachable :: "appState \<Rightarrow> bool" where
  mounted:
    "reachable (initialState\<lparr>bluetoothSupported := hasBluetooth, messages := loaded,
                             devices := simulatedDevices\<rparr>)"
| step: "reachable s \<Longrightarrow> dispatch e s = Some s' \<Longrightarrow> reachable s'"

text \<open>The selection is unset or is an entry of the connected list.\<close>

definition selectionOk :: "appState \<Rightarrow> bool" where
  "selectionOk s \<longleftrightarrow> (case selectedDevice s of None \<Rightarrow> True | Some sd \<Rightarrow> sd \<in> set (connectedDevices s))"


section \<open>Welcome messages, counted\<close>

text \<open>
  An inbound message with the welcome text, the welcome timers pending for a device id
  and the welcome messages delivered on its thread, and whether an event is a connection
  of a device with that id.
\<close>

definition isWelcome :: "Message \<Rightarrow> bool" where
  "isWelcome m \<longleftrightarrow> \<not> sent m \<and> content m = ascii ''Hello! I'm connected via Bluetooth.''"

definition pendingWelcomes :: "jsstring \<Rightarrow> appState \<Rightarrow> nat" where
  "pendingWelcomes did s =
     length (filter (\<lambda>t. case callback t of WelcomeCallback d \<Rightarrow> dev_id d = did | _ \<Rightarrow> False)
               (timers s))"

definition deliveredWelcomes :: "jsstring \<Rightarrow> appState \<Rightarrow> nat" where
  "deliveredWelcomes did s = length (filter isWelcome (getMessagesForDevice s did))"

fun connectsOf :: "jsstring \<Rightarrow> event \<Rightarrow> appState \<Rightarrow> nat" where
  "connectsOf did (ClickDeviceButton i) s =
     (if i < length (devices s) \<and> \<not> dev_connected (devices s ! i) \<and> dev_id (devices s ! i) = did
      then 1 else 0)"
| "connectsOf did e s = 0"

section \<open>Example values\<close>

text \<open>
  The first simulated device, a device that is in no list, the page after its mount
  effect when storage holds no snapshot, the page with the first device connected and
  selected and a text in the input, and the draws 0 and one half.
\<close>

definition alice :: BluetoothDevice where
  "alice = \<lparr>dev_id = ascii ''1'', dev_name = ascii ''Alice's iPhone'', dev_type = Phone,
             dev_connected = False, dev_rssi = - 45\<rparr>"

definition stranger :: BluetoothDevice where
  "stranger = \<lparr>dev_id = ascii ''d1'', dev_name = ascii ''Alice'', dev_type = UnknownType,
                dev_connected = False, dev_rssi = - 50\<rparr>"

definition freshPage :: appState where
  "freshPage = initialState\<lparr>devices := simulatedDevices\<rparr>"

definition chatting :: "jsstring \<Rightarrow> appState" where
  "chatting text =
     freshPage
       \<lparr>devices := (alice\<lparr>dev_connected := True\<rparr>) # tl simulatedDevices,
        connectedDevices := [alice\<lparr>dev_connected := True\<rparr>],
        selectedDevice := Some (alice\<lparr>dev_connected := True\<rparr>),
        currentMessage := text,
        timers := [\<lparr>due = 1000, callback = WelcomeCallback alice\<rparr>]\<rparr>"

text \<open>
  A JSON text written with \<open>^\<close> for the quotation mark and \<open>~\<close> for the backslash.
\<close>

definition jsonText :: "string \<Rightarrow> jsstring" where
  "jsonText s = map (\<lambda>c. if c = 94 then 34 else if c = 126 then 92 else c) (ascii s)"

definition zeroDraw :: unit_interval where
  "zeroDraw = Abs_unit_interval (number 0)"

definition halfDraw :: unit_interval where
  "halfDraw = Abs_unit_interval \<lparr>mant = 1, expo = - 1\<rparr>"

text \<open>
  Two draws at which the rounding shows: the greatest number below 1, and the number next
  below four sevenths.
\<close>

definition topDraw :: unit_interval where
  "topDraw = Abs_unit_interval \<lparr>mant = 9007199254740991, expo = - 53\<rparr>"

definition seventhsDraw :: unit_interval where
  "seventhsDraw = Abs_unit_interval \<lparr>mant = 2573485501354569, expo = - 52\<rparr>"

section \<open>Properties of strings\<close>

lemma trim_Nil_iff: "trim s = [] \<longleftrightarrow> (\<forall>c\<in>set s. isWhiteSpace c)"
proof -
  have "(\<forall>c\<in>set (dropWhile isWhiteSpace s). isWhiteSpace c) \<longleftrightarrow> (\<forall>c\<in>set s. isWhiteSpace c)"
    (is "?L \<longleftrightarrow> ?R")
  proof
    assume ?L
    have "set s = set (takeWhile isWhiteSpace s) \<union> set (dropWhile isWhiteSpace s)"
      by (metis set_append takeWhile_dropWhile_id)
    with \<open>?L\<close> show ?R by (auto dest: set_takeWhileD)
  next
    assume ?R then show ?L by (auto dest: set_dropWhileD)
  qed
  then show ?thesis by (simp add: trim_def)
qed

lemma trim_id: "s \<noteq> [] \<Longrightarrow> \<not> isWhiteSpace (hd s) \<Longrightarrow> \<not> isWhiteSpace (last s) \<Longrightarrow> trim s = s"
proof -
  assume a: "s \<noteq> []" "\<not> isWhiteSpace (hd s)" "\<not> isWhiteSpace (last s)"
  then have 1: "dropWhile isWhiteSpace s = s" by (simp add: dropWhile_eq_self_iff)
  from a have "hd (rev s) = last s" by (simp add: hd_rev)
  with a have 2: "dropWhile isWhiteSpace (rev s) = rev s" by (simp add: dropWhile_eq_self_iff)
  show ?thesis by (simp add: trim_def 1 2)
qed

lemma length_trim: "length (trim s) \<le> length s"
proof -
  have "length (dropWhile isWhiteSpace (rev (dropWhile isWhiteSpace s)))
          \<le> length (rev (dropWhile isWhiteSpace s))"
    by (rule length_dropWhile_le)
  also have "\<dots> \<le> length s" by (simp add: length_dropWhile_le)
  finally show ?thesis by (simp add: trim_def)
qed

section \<open>Properties of numbers\<close>

lemma bitLength_bounds: "0 < n \<Longrightarrow> 2 ^ (bitLength n - 1) \<le> n \<and> n < 2 ^ bitLength n"
proof (induction n rule: bitLength.induct)
  case (1 n)
  show ?case
  proof (cases "n div 2 = 0")
    case True
    with 1(2) have "n = 1" by (simp add: div_eq_0_iff) 
    then show ?thesis by (simp add: bitLength.simps)
  next
    case False
    then have p: "0 < n div 2" by simp
    from 1(2) have n: "n \<noteq> 0" by simp
    from 1(1) [OF n p] have a: "2 ^ (bitLength (n div 2) - 1) \<le> n div 2" and b: "n div 2 < 2 ^ bitLength (n div 2)"
      by simp_all
    have bl: "bitLength n = Suc (bitLength (n div 2))" using n by (simp add: bitLength.simps [of n])
    have pos: "0 < bitLength (n div 2)" using p by (simp add: bitLength.simps [of "n div 2"])
    then have "(2::nat) ^ (bitLength n - 1) = 2 * 2 ^ (bitLength (n div 2) - 1)"
      using bl by (cases "bitLength (n div 2)") simp_all
    moreover have "2 * (n div 2) \<le> n" by simp
    ultimately have l: "2 ^ (bitLength n - 1) \<le> n" using a by linarith
    have "n < 2 * (n div 2) + 2" by linarith
    then have u: "n < 2 ^ bitLength n" using b bl by simp
    from l u show ?thesis by simp
  qed
qed

lemma roundHalfEven_le: "m \<le> k * 2 ^ s \<Longrightarrow> roundHalfEven m s \<le> k"
proof -
  assume a: "m \<le> k * 2 ^ s"
  have d: "m = (m div 2 ^ s) * 2 ^ s + m mod 2 ^ s" using div_mult_mod_eq [of m "2 ^ s"] by linarith
  have q: "m div 2 ^ s \<le> k" 
    using a by (metis div_le_mono div_mult_self_is_m zero_less_numeral zero_less_power)
  show ?thesis
  proof (cases "m mod 2 ^ s = 0")
    case True
    then show ?thesis using q by (simp add: roundHalfEven_def Let_def)
  next
    case False
    have "m div 2 ^ s \<noteq> k"
    proof
      assume "m div 2 ^ s = k"
      with d have "m = k * 2 ^ s + m mod 2 ^ s" by simp
      with a False show False by linarith
    qed
    with q have "m div 2 ^ s + 1 \<le> k" by simp
    then show ?thesis by (simp add: roundHalfEven_def Let_def)
  qed
qed

lemma roundHalfEven_ge: "k * 2 ^ s \<le> m \<Longrightarrow> k \<le> roundHalfEven m s"
proof -
  assume a: "k * 2 ^ s \<le> m"
  then have "k \<le> m div 2 ^ s"
    by (metis div_le_mono div_mult_self_is_m zero_less_numeral zero_less_power)
  then show ?thesis by (simp add: roundHalfEven_def Let_def)
qed

lemma roundHalfEven_below: "2 * m < (2 * k + 1) * 2 ^ s \<Longrightarrow> roundHalfEven m s \<le> k"
proof -
  assume a: "2 * m < (2 * k + 1) * 2 ^ s"
  have d: "m = (m div 2 ^ s) * 2 ^ s + m mod 2 ^ s" using div_mult_mod_eq [of m "2 ^ s"] by linarith
  show ?thesis
  proof (cases "m div 2 ^ s < k")
    case True
    then show ?thesis by (simp add: roundHalfEven_def Let_def)
  next
    case False
    then have "k * 2 ^ s \<le> (m div 2 ^ s) * 2 ^ s" by simp
    with d have "k * 2 ^ s + m mod 2 ^ s \<le> m" by linarith
    then have "2 * (k * 2 ^ s) + 2 * (m mod 2 ^ s) \<le> 2 * m" by linarith
    with a have "2 * (k * 2 ^ s) + 2 * (m mod 2 ^ s) < (2 * k + 1) * 2 ^ s" by linarith
    then have r: "2 * (m mod 2 ^ s) < 2 ^ s" by (simp add: algebra_simps)
    have "m div 2 ^ s \<le> k"
    proof (rule ccontr)
      assume "\<not> m div 2 ^ s \<le> k"
      then have "k + 1 \<le> m div 2 ^ s" by simp
      then have "(k + 1) * 2 ^ s \<le> (m div 2 ^ s) * 2 ^ s" by (rule mult_le_mono1)
      with d have "(k + 1) * 2 ^ s \<le> m" by linarith
      then have "2 * ((k + 1) * 2 ^ s) \<le> 2 * m" by linarith
      with a have "2 * ((k + 1) * 2 ^ s) < (2 * k + 1) * 2 ^ s" by linarith
      then show False by (simp add: algebra_simps)
    qed
    with r show ?thesis by (simp add: roundHalfEven_def Let_def)
  qed
qed

lemma powi_nonpos: "g \<le> 0 \<Longrightarrow> (2::rat) powi g = 1 / 2 ^ nat (- g)"
proof (cases "g = 0")
  case True
  then show ?thesis by simp
next
  case False
  assume "g \<le> 0"
  with False have "g < 0" by simp
  then have "(2::rat) powi g = inverse 2 ^ nat (- g)" by (simp add: power_int_def)
  also have "\<dots> = 1 / 2 ^ nat (- g)" by (simp add: power_one_over)
  finally show ?thesis .
qed

lemma powi_split:
  "0 < s \<Longrightarrow> e + s \<le> 0 \<Longrightarrow> (2::rat) powi e = 1 / (2 ^ nat (- (e + s)) * 2 ^ nat s)"
proof -
  assume s: "0 < s" and g: "e + s \<le> 0"
  then have "e \<le> 0" by simp
  then have "(2::rat) powi e = 1 / 2 ^ nat (- e)" by (rule powi_nonpos)
  moreover have "nat (- e) = nat (- (e + s)) + nat s" using s g by simp
  ultimately show ?thesis by (simp add: power_add)
qed

lemma powi_pos: "0 \<le> g \<Longrightarrow> (2::rat) powi g = 2 ^ nat g"
  by (simp add: power_int_def)

lemma grid:
  assumes "s = max (int (bitLength m) - 53) (- 1074 - e)" and "0 < s"
  shows "e + s = - 1074 \<or> 2 ^ (nat s + 52) \<le> m"
proof (cases "s = - 1074 - e")
  case True
  then show ?thesis by simp
next
  case False
  with assms have s: "s = int (bitLength m) - 53" by (simp add: max_def split: if_splits)
  with assms(2) have b: "bitLength m = nat s + 53" by simp
  have "m \<noteq> 0"
  proof
    assume "m = 0"
    then have "bitLength m = 0" by (simp add: bitLength.simps)
    with b show False by simp
  qed
  then have "2 ^ (bitLength m - 1) \<le> m" using bitLength_bounds [of m] by simp
  with b show ?thesis by (simp add: add.commute)
qed

lemma beyond_general:
  assumes "2 ^ (nat s + 52) \<le> m" and "0 < s" and "c \<le> e + s + 52"
  shows "(2::rat) powi c \<le> of_nat m * 2 powi e"
proof -
  have "(2::rat) powi (c - e) \<le> 2 powi (s + 52)"
    using assms(3) by (intro power_int_increasing) simp_all
  also have "\<dots> = 2 ^ (nat s + 52)" using assms(2) by (simp add: powi_pos nat_add_distrib)
  also have "\<dots> \<le> of_nat m" using assms(1) by (metis of_nat_le_iff of_nat_numeral of_nat_power)
  finally have "(2::rat) powi (c - e) * 2 powi e \<le> of_nat m * 2 powi e"
    by (intro mult_right_mono) simp_all
  moreover have "(2::rat) powi (c - e) * 2 powi e = 2 powi c"
    by (simp add: power_int_add [symmetric])
  ultimately show ?thesis by simp
qed

lemma beyond:
  assumes "2 ^ (nat s + 52) \<le> m" and "0 < s" and "0 < e + s"
  shows "(2::rat) ^ 53 \<le> of_nat m * 2 powi e"
proof -
  from assms(3) have "53 \<le> e + s + 52" by simp
  with assms(1,2) have "(2::rat) powi 53 \<le> of_nat m * 2 powi e" by (rule beyond_general)
  then show ?thesis by simp
qed

lemma roundHalfEven_large: "2 ^ (s + 52) \<le> m \<Longrightarrow> 2 ^ 52 \<le> roundHalfEven m s"
  by (rule roundHalfEven_ge) (simp add: power_add mult.commute)

lemma roundToDouble_exact:
  "max (int (bitLength m) - 53) (- 1074 - e) \<le> 0 \<Longrightarrow> roundToDouble m e = \<lparr>mant = m, expo = e\<rparr>"
  by (simp add: roundToDouble_def Let_def)

lemma roundToDouble_rounded:
  assumes "0 < s" and "s = max (int (bitLength m) - 53) (- 1074 - e)"
  shows "roundToDouble m e = \<lparr>mant = roundHalfEven m (nat s), expo = e + s\<rparr>"
proof -
  from assms have "\<not> max (int (bitLength m) - 53) (- 1074 - e) \<le> 0" by linarith
  then have "roundToDouble m e =
      \<lparr>mant = roundHalfEven m (nat (max (int (bitLength m) - 53) (- 1074 - e))),
        expo = e + max (int (bitLength m) - 53) (- 1074 - e)\<rparr>"
    unfolding roundToDouble_def Let_def by (rule if_not_P)
  then show ?thesis by (simp only: assms(2))
qed

lemma round_le:
  assumes x: "of_nat m * 2 powi e \<le> (of_nat D :: rat)" and D: "D < 2 ^ 53"
  shows "valueOf (roundToDouble m e) \<le> of_nat D"
proof -
  define s where "s = max (int (bitLength m) - 53) (- 1074 - e)"
  show ?thesis
  proof (cases "s \<le> 0")
    case True
    then show ?thesis using x by (simp add: roundToDouble_exact s_def valueOf_def)
  next
    case False
    then have s: "0 < s" by simp
    have r: "roundToDouble m e = \<lparr>mant = roundHalfEven m (nat s), expo = e + s\<rparr>"
      using s s_def by (rule roundToDouble_rounded)
    show ?thesis
    proof (cases "e + s \<le> 0")
      case True
      define t where "t = nat (- (e + s))"
      have "(2::rat) powi e = 1 / (2 ^ t * 2 ^ nat s)" unfolding t_def using s True by (rule powi_split)
      with x have "of_nat m / (2 ^ t * 2 ^ nat s) \<le> (of_nat D :: rat)" by simp
      then have "(of_nat m :: rat) \<le> of_nat D * (2 ^ t * 2 ^ nat s)" by (simp add: pos_divide_le_eq)
      then have "(of_nat m :: rat) \<le> of_nat (D * 2 ^ t * 2 ^ nat s)" by (simp add: mult.assoc)
      then have "m \<le> (D * 2 ^ t) * 2 ^ nat s" by (simp only: of_nat_le_iff)
      then have "roundHalfEven m (nat s) \<le> D * 2 ^ t" by (rule roundHalfEven_le)
      then have "(of_nat (roundHalfEven m (nat s)) :: rat) \<le> of_nat (D * 2 ^ t)" by (simp only: of_nat_le_iff)
      then have "(of_nat (roundHalfEven m (nat s)) :: rat) / 2 ^ t \<le> of_nat D" by (simp add: pos_divide_le_eq)
      moreover have "(2::rat) powi (e + s) = 1 / 2 ^ t" unfolding t_def using True by (rule powi_nonpos)
      ultimately show ?thesis by (simp add: r valueOf_def)
    next
      case False
      then have g: "0 < e + s" by simp
      with grid [OF s_def s] have "2 ^ (nat s + 52) \<le> m" by simp
      then have "(2::rat) ^ 53 \<le> of_nat m * 2 powi e" using s g by (rule beyond)
      with x have "(2::rat) ^ 53 \<le> of_nat D" by simp
      then have "(of_nat (2 ^ 53) :: rat) \<le> of_nat D" by simp
      then have "2 ^ 53 \<le> D" by (simp only: of_nat_le_iff)
      with D show ?thesis by simp
    qed
  qed
qed

lemma round_ge:
  assumes x: "(of_nat D :: rat) \<le> of_nat m * 2 powi e" and D: "D < 2 ^ 53"
  shows "of_nat D \<le> valueOf (roundToDouble m e)"
proof -
  define s where "s = max (int (bitLength m) - 53) (- 1074 - e)"
  show ?thesis
  proof (cases "s \<le> 0")
    case True
    then show ?thesis using x by (simp add: roundToDouble_exact s_def valueOf_def)
  next
    case False
    then have s: "0 < s" by simp
    have r: "roundToDouble m e = \<lparr>mant = roundHalfEven m (nat s), expo = e + s\<rparr>"
      using s s_def by (rule roundToDouble_rounded)
    show ?thesis
    proof (cases "e + s \<le> 0")
      case True
      define t where "t = nat (- (e + s))"
      have "(2::rat) powi e = 1 / (2 ^ t * 2 ^ nat s)" unfolding t_def using s True by (rule powi_split)
      with x have "(of_nat D :: rat) \<le> of_nat m / (2 ^ t * 2 ^ nat s)" by simp
      then have "(of_nat D :: rat) * (2 ^ t * 2 ^ nat s) \<le> of_nat m" by (simp add: pos_le_divide_eq)
      then have "(of_nat (D * 2 ^ t * 2 ^ nat s) :: rat) \<le> of_nat m" by (simp add: mult.assoc)
      then have "(D * 2 ^ t) * 2 ^ nat s \<le> m" by (simp only: of_nat_le_iff)
      then have "D * 2 ^ t \<le> roundHalfEven m (nat s)" by (rule roundHalfEven_ge)
      then have "(of_nat (D * 2 ^ t) :: rat) \<le> of_nat (roundHalfEven m (nat s))" by (simp only: of_nat_le_iff)
      then have "(of_nat D :: rat) \<le> of_nat (roundHalfEven m (nat s)) / 2 ^ t" by (simp add: pos_le_divide_eq)
      moreover have "(2::rat) powi (e + s) = 1 / 2 ^ t" unfolding t_def using True by (rule powi_nonpos)
      ultimately show ?thesis by (simp add: r valueOf_def)
    next
      case False
      then have g: "0 < e + s" by simp
      with grid [OF s_def s] have "2 ^ (nat s + 52) \<le> m" by simp
      then have "2 ^ 52 \<le> roundHalfEven m (nat s)" by (rule roundHalfEven_large)
      then have "(of_nat (2 ^ 52) :: rat) \<le> of_nat (roundHalfEven m (nat s))" by (simp only: of_nat_le_iff)
      then have a: "(2::rat) ^ 52 \<le> of_nat (roundHalfEven m (nat s))" by simp
      have "(2::rat) powi 1 \<le> 2 powi (e + s)" using g by (intro power_int_increasing) simp_all
      then have b: "(2::rat) \<le> 2 powi (e + s)" by simp
      have "(2::rat) ^ 52 * 2 \<le> of_nat (roundHalfEven m (nat s)) * 2 powi (e + s)"
        using a b by (intro mult_mono) simp_all
      moreover have "(of_nat D :: rat) < of_nat (2 ^ 53)" using D by (simp only: of_nat_less_iff)
      ultimately show ?thesis by (simp add: r valueOf_def)
    qed
  qed
qed

lemma round_below_7:
  assumes x: "of_nat m * 2 powi e \<le> (7 - 7 / 2 ^ 53 :: rat)"
  shows "valueOf (roundToDouble m e) < 7"
proof -
  define s where "s = max (int (bitLength m) - 53) (- 1074 - e)"
  show ?thesis
  proof (cases "s \<le> 0")
    case True
    then have "valueOf (roundToDouble m e) = of_nat m * 2 powi e"
      by (simp add: roundToDouble_exact s_def valueOf_def)
    with x show ?thesis by simp
  next
    case False
    then have s: "0 < s" by simp
    have r: "roundToDouble m e = \<lparr>mant = roundHalfEven m (nat s), expo = e + s\<rparr>"
      using s s_def by (rule roundToDouble_rounded)
    have g: "e + s \<le> - 50"
    proof (rule ccontr)
      assume "\<not> e + s \<le> - 50"
      then have c: "3 \<le> e + s + 52" by simp
      then have "e + s \<noteq> - 1074" by simp
      with grid [OF s_def s] have "2 ^ (nat s + 52) \<le> m" by simp
      then have "(2::rat) powi 3 \<le> of_nat m * 2 powi e" using s c by (rule beyond_general)
      with x show False by simp
    qed
    define t where "t = nat (- (e + s))"
    define A :: rat where "A = 2 ^ t"
    define B :: rat where "B = 2 ^ nat s"
    define k where "k = 7 * 2 ^ t - (1::nat)"
    have t: "50 \<le> t" using g by (simp add: t_def)
    have B: "0 < B" by (simp add: B_def)
    have "(2::rat) ^ 50 \<le> 2 ^ t" using t by (intro power_increasing) simp_all
    then have A: "2 ^ 50 \<le> A" by (simp add: A_def)
    have k: "(of_nat k :: rat) = 7 * A - 1"
    proof -
      have "1 \<le> 7 * (2::nat) ^ t" by (simp add: Suc_le_eq)
      then have "(of_nat k :: rat) = of_nat (7 * 2 ^ t) - 1" unfolding k_def by (simp only: of_nat_diff of_nat_1)
      then show ?thesis by (simp add: A_def)
    qed
    have p: "(2::rat) powi e = 1 / (A * B)"
      unfolding t_def A_def B_def using s g by (intro powi_split) simp_all
    with x have "of_nat m / (A * B) \<le> (7 - 7 / 2 ^ 53 :: rat)" by simp
    moreover have "0 < A * B" using A B by (simp add: A_def)
    ultimately have "(of_nat m :: rat) \<le> (7 - 7 / 2 ^ 53) * (A * B)" by (simp add: pos_divide_le_eq)
    also have "\<dots> = (7 * A - 7 / 2 ^ 53 * A) * B" by (simp add: algebra_simps)
    also have "\<dots> \<le> (7 * A - 7 / 8) * B"
    proof (rule mult_right_mono)
      have "7 / 2 ^ 53 * (2::rat) ^ 50 \<le> 7 / 2 ^ 53 * A" using A by (intro mult_left_mono) simp_all
      then show "7 * A - 7 / 2 ^ 53 * A \<le> 7 * A - 7 / 8" by simp
      show "0 \<le> B" using B by simp
    qed
    finally have "2 * (of_nat m :: rat) \<le> (14 * A - 7 / 4) * B" by (simp add: algebra_simps)
    also have "\<dots> < (14 * A - 1) * B" using B by (intro mult_strict_right_mono) simp_all
    also have "\<dots> = (2 * of_nat k + 1) * B" by (simp add: k)
    finally have "(of_nat (2 * m) :: rat) < of_nat ((2 * k + 1) * 2 ^ nat s)" by (simp add: B_def algebra_simps)
    then have "2 * m < (2 * k + 1) * 2 ^ nat s" by (simp only: of_nat_less_iff)
    then have "roundHalfEven m (nat s) \<le> k" by (rule roundHalfEven_below)
    then have "(of_nat (roundHalfEven m (nat s)) :: rat) \<le> of_nat k" by (simp only: of_nat_le_iff)
    then have "(of_nat (roundHalfEven m (nat s)) :: rat) < 7 * A" by (simp add: k)
    then have "(of_nat (roundHalfEven m (nat s)) :: rat) / A < 7" using A by (simp add: pos_divide_less_eq A_def)
    moreover have "(2::rat) powi (e + s) = 1 / A" unfolding t_def A_def using g by (intro powi_nonpos) simp
    ultimately show ?thesis by (simp add: r valueOf_def)
  qed
qed

lemma valueOf_nonneg: "0 \<le> valueOf d"
  by (simp add: valueOf_def)

lemma valueOf_number: "valueOf (number n) = of_nat n"
  by (simp add: valueOf_def number_def)

lemma double_below_1:
  assumes "isDouble d" and "valueOf d < 1"
  shows "valueOf d \<le> 1 - 1 / 2 ^ 53"
proof (cases "- 53 \<le> expo d")
  case True
  define j where "j = nat (expo d + 53)"
  have e: "expo d = int j + (- 53)" using True by (simp add: j_def)
  have "(2::rat) powi (int j + (- 53)) = 2 powi int j * 2 powi (- 53)" by (rule power_int_add) simp
  then have "(2::rat) powi expo d = 2 powi int j * 2 powi (- 53)" by (simp only: e)
  moreover have "(2::rat) powi (- 53) = 1 / 2 ^ 53" using powi_nonpos [of "- 53"] by simp
  ultimately have p: "(2::rat) powi expo d = 2 ^ j / 2 ^ 53" by simp
  with assms(2) have "(of_nat (mant d) :: rat) * 2 ^ j / 2 ^ 53 < 1" by (simp add: valueOf_def)
  then have "(of_nat (mant d * 2 ^ j) :: rat) < of_nat (2 ^ 53)" by simp
  then have "mant d * 2 ^ j < 2 ^ 53" by (simp only: of_nat_less_iff)
  then have "mant d * 2 ^ j \<le> 2 ^ 53 - 1" by simp
  then have "(of_nat (mant d * 2 ^ j) :: rat) \<le> of_nat (2 ^ 53 - 1)" by (simp only: of_nat_le_iff)
  then have "(of_nat (mant d) :: rat) * 2 ^ j \<le> 2 ^ 53 - 1" by simp
  then have "(of_nat (mant d) :: rat) * 2 ^ j / 2 ^ 53 \<le> (2 ^ 53 - 1) / 2 ^ 53" by (simp add: divide_right_mono)
  then show ?thesis by (simp add: valueOf_def p diff_divide_distrib)
next
  case False
  then have "expo d \<le> - 54" by simp
  then have "(2::rat) powi expo d \<le> 2 powi (- 54)" by (intro power_int_increasing) simp_all
  moreover have "(of_nat (mant d) :: rat) \<le> of_nat (2 ^ 53)"
    using assms(1) by (simp only: of_nat_le_iff) (simp add: isDouble_def)
  ultimately have "of_nat (mant d) * 2 powi expo d \<le> (of_nat (2 ^ 53) :: rat) * 2 powi (- 54)"
    by (intro mult_mono) simp_all
  then have "valueOf d \<le> 1 / 2" by (simp add: valueOf_def power_int_minus)
  then show ?thesis by simp
qed

lemma draw_range: "isDouble (draw u) \<and> 0 \<le> valueOf (draw u) \<and> valueOf (draw u) \<le> 1 - 1 / 2 ^ 53"
  using Rep_unit_interval [of u] double_below_1 [of "draw u"] by (simp add: draw_def valueOf_nonneg)

lemma draw_Abs: "isDouble d \<Longrightarrow> valueOf d < 1 \<Longrightarrow> draw (Abs_unit_interval d) = d"
  by (simp add: draw_def Abs_unit_interval_inverse)

lemma multiply_number_exact:
  "of_nat (mant a * mant (number n)) * 2 powi (expo a + expo (number n)) = valueOf a * (of_nat n :: rat)"
  by (simp add: number_def valueOf_def)

lemma add_exact:
  "of_nat (mant a * 2 ^ nat (expo a - min (expo a) (expo b)) + mant b * 2 ^ nat (expo b - min (expo a) (expo b)))
     * 2 powi min (expo a) (expo b) = valueOf a + valueOf b"
proof -
  define e where "e = min (expo a) (expo b)"
  have "(2::rat) ^ nat (expo a - e) * 2 powi e = 2 powi expo a"
  proof -
    have "(2::rat) ^ nat (expo a - e) = 2 powi (expo a - e)" by (simp add: powi_pos e_def)
    then show ?thesis by (simp add: power_int_add [symmetric])
  qed
  moreover have "(2::rat) ^ nat (expo b - e) * 2 powi e = 2 powi expo b"
  proof -
    have "(2::rat) ^ nat (expo b - e) = 2 powi (expo b - e)" by (simp add: powi_pos e_def)
    then show ?thesis by (simp add: power_int_add [symmetric])
  qed
  ultimately show ?thesis
    unfolding e_def [symmetric] by (simp add: valueOf_def algebra_simps)
qed

lemma mathFloor_floor: "mathFloor d = \<lfloor>valueOf d\<rfloor>"
proof (cases "0 \<le> expo d")
  case True
  then have "valueOf d = of_nat (mant d * 2 ^ nat (expo d))" by (simp add: valueOf_def powi_pos)
  then have "\<lfloor>valueOf d\<rfloor> = int (mant d * 2 ^ nat (expo d))" by (simp only: floor_of_nat)
  with True show ?thesis by (simp add: mathFloor_def)
next
  case False
  then have "(2::rat) powi expo d = 1 / 2 ^ nat (- expo d)" by (intro powi_nonpos) simp
  then have "valueOf d = of_nat (mant d) / of_nat (2 ^ nat (- expo d))" by (simp add: valueOf_def)
  then have "\<lfloor>valueOf d\<rfloor> = int (mant d div 2 ^ nat (- expo d))" by (simp only: floor_divide_of_nat_eq)
  with False show ?thesis by (simp add: mathFloor_def)
qed

lemma length_responses: "length responses = 7"
  by (simp add: responses_def)

lemma responseIndex_less: "responseIndex u < length responses"
proof -
  have "valueOf (draw u) * 7 \<le> (1 - 1 / 2 ^ 53) * 7" using draw_range [of u] by (intro mult_right_mono) simp_all
  then have "of_nat (mant (draw u) * mant (number 7)) * 2 powi (expo (draw u) + expo (number 7)) \<le> (7 - 7 / 2 ^ 53 :: rat)"
    by (simp only: multiply_number_exact) simp
  then have "valueOf (multiply (draw u) (number 7)) < 7" unfolding multiply_def by (rule round_below_7)
  then have "\<lfloor>valueOf (multiply (draw u) (number 7))\<rfloor> < 7" by (simp add: floor_less_iff)
  then have "nat \<lfloor>valueOf (multiply (draw u) (number 7))\<rfloor> < 7" by linarith
  then show ?thesis by (simp add: responseIndex_def mathFloor_floor length_responses)
qed

lemma responseDelay_range: "1000 \<le> valueOf (responseDelay u) \<and> valueOf (responseDelay u) \<le> 3000"
proof -
  let ?p = "multiply (draw u) (number 2000)"
  have b: "(2000::nat) < 2 ^ 53" "(3000::nat) < 2 ^ 53" "(1000::nat) < 2 ^ 53" by simp_all
  have "valueOf (draw u) * of_nat 2000 \<le> (of_nat 2000 :: rat)" using draw_range [of u] by simp
  then have "of_nat (mant (draw u) * mant (number 2000)) * 2 powi (expo (draw u) + expo (number 2000)) \<le> (of_nat 2000 :: rat)"
    by (simp only: multiply_number_exact)
  then have "valueOf ?p \<le> of_nat 2000" unfolding multiply_def using b(1) by (rule round_le)
  then have u: "valueOf (number 1000) + valueOf ?p \<le> of_nat 3000" by (simp add: valueOf_number)
  have l: "of_nat 1000 \<le> valueOf (number 1000) + valueOf ?p"
    using valueOf_nonneg [of ?p] by (simp add: valueOf_number)
  have "valueOf (add (number 1000) ?p) \<le> of_nat 3000"
    unfolding add_def Let_def using u [folded add_exact] b(2) by (rule round_le)
  moreover have "of_nat 1000 \<le> valueOf (add (number 1000) ?p)"
    unfolding add_def Let_def using l [folded add_exact] b(3) by (rule round_ge)
  ultimately show ?thesis by (simp add: responseDelay_def)
qed

lemma exact_results_bounded:
  "valueOf (draw u) * valueOf (number (length responses)) < 7
   \<and> valueOf (draw u) * valueOf (number 2000) < 2000
   \<and> valueOf (number 1000) + valueOf (multiply (draw u) (number 2000)) \<le> 3000"
proof -
  have "(2000::nat) < 2 ^ 53" by simp
  have d: "valueOf (draw u) < 1" using draw_range [of u] by simp
  then have "valueOf (draw u) * of_nat 2000 \<le> (of_nat 2000 :: rat)" by simp
  then have "of_nat (mant (draw u) * mant (number 2000)) * 2 powi (expo (draw u) + expo (number 2000)) \<le> (of_nat 2000 :: rat)"
    by (simp only: multiply_number_exact)
  then have "valueOf (multiply (draw u) (number 2000)) \<le> of_nat 2000"
    unfolding multiply_def using \<open>(2000::nat) < 2 ^ 53\<close> by (rule round_le)
  with d show ?thesis by (simp add: valueOf_number length_responses)
qed

text \<open>
  The draws of the examples. At the greatest number below 1 the exact delay is below
  3000 and the delay of the code is 3000; at the number next below four sevenths the
  exact product with 7 is below 4 and the product of the code is 4.
\<close>

lemma draw_zeroDraw: "draw zeroDraw = number 0"
  by (simp add: zeroDraw_def draw_Abs isDouble_def valueOf_def number_def)

lemma draw_halfDraw: "draw halfDraw = \<lparr>mant = 1, expo = - 1\<rparr>"
  by (simp add: halfDraw_def draw_Abs isDouble_def valueOf_def power_int_minus)

lemma draw_topDraw: "draw topDraw = \<lparr>mant = 9007199254740991, expo = - 53\<rparr>"
  by (simp add: topDraw_def draw_Abs isDouble_def valueOf_def power_int_minus)

lemma draw_seventhsDraw: "draw seventhsDraw = \<lparr>mant = 2573485501354569, expo = - 52\<rparr>"
  by (simp add: seventhsDraw_def draw_Abs isDouble_def valueOf_def power_int_minus)

lemma responseIndex_halfDraw: "responseIndex halfDraw = 3"
  by (simp add: responseIndex_def draw_halfDraw length_responses multiply_def number_def
      roundToDouble_def bitLength.simps mathFloor_def Let_def)

lemma responseDelay_halfDraw: "valueOf (responseDelay halfDraw) = 2000"
proof -
  have "multiply \<lparr>mant = 1, expo = - 1\<rparr> (number 2000) = \<lparr>mant = 2000, expo = - 1\<rparr>"
    by (simp add: multiply_def number_def roundToDouble_def bitLength.simps Let_def)
  moreover have "add (number 1000) \<lparr>mant = 2000, expo = - 1\<rparr> = roundToDouble 4000 (- 1)"
    by (simp add: add_def number_def Let_def)
  moreover have "roundToDouble 4000 (- 1) = \<lparr>mant = 4000, expo = - 1\<rparr>"
    by (simp add: roundToDouble_def bitLength.simps Let_def)
  ultimately show ?thesis
    by (simp add: responseDelay_def draw_halfDraw valueOf_def power_int_minus)
qed

lemma responseDelay_topDraw:
  "valueOf (responseDelay topDraw) = 3000 \<and> 1000 + valueOf (draw topDraw) * 2000 < 3000"
proof -
  have "multiply \<lparr>mant = 9007199254740991, expo = - 53\<rparr> (number 2000) =
      \<lparr>mant = 8796093022207999, expo = - 42\<rparr>"
    by (simp add: multiply_def number_def roundToDouble_def roundHalfEven_def bitLength.simps Let_def)
  moreover have "add (number 1000) \<lparr>mant = 8796093022207999, expo = - 42\<rparr> =
      roundToDouble 13194139533311999 (- 42)"
    by (simp add: add_def number_def Let_def)
  moreover have "roundToDouble 13194139533311999 (- 42) = \<lparr>mant = 6597069766656000, expo = - 41\<rparr>"
    by (simp add: roundToDouble_def roundHalfEven_def bitLength.simps Let_def)
  ultimately have "valueOf (responseDelay topDraw) = 3000"
    by (simp add: responseDelay_def draw_topDraw valueOf_def power_int_minus)
  moreover have "1000 + valueOf (draw topDraw) * 2000 < 3000"
    by (simp add: draw_topDraw valueOf_def power_int_minus)
  ultimately show ?thesis by simp
qed

lemma responseIndex_seventhsDraw:
  "responseIndex seventhsDraw = 4 \<and> \<lfloor>valueOf (draw seventhsDraw) * 7\<rfloor> = 3"
proof -
  have "mathFloor (multiply \<lparr>mant = 2573485501354569, expo = - 52\<rparr> (number 7)) = 4"
    by (simp add: multiply_def number_def roundToDouble_def roundHalfEven_def bitLength.simps
        mathFloor_def Let_def)
  then have "responseIndex seventhsDraw = 4"
    by (simp add: responseIndex_def draw_seventhsDraw length_responses)
  moreover have "\<lfloor>valueOf (draw seventhsDraw) * 7\<rfloor> = 3"
    by (rule floor_unique) (simp_all add: draw_seventhsDraw valueOf_def power_int_minus)
  ultimately show ?thesis by simp
qed

lemma responses_not_welcome:
  "i < length responses \<Longrightarrow> responses ! i \<noteq> ascii ''Hello! I'm connected via Bluetooth.''"
proof -
  have "ascii ''Hello! I'm connected via Bluetooth.'' \<notin> set responses"
    by (simp add: responses_def ascii_def)
  then show "i < length responses \<Longrightarrow> responses ! i \<noteq> ascii ''Hello! I'm connected via Bluetooth.''"
    by (metis nth_mem)
qed

section \<open>Properties of the device registry\<close>

lemma find_None_iff_id: "find (\<lambda>d. dev_id d = i) prev = None \<longleftrightarrow> i \<notin> dev_id ` set prev"
  by (auto simp: find_None_iff)

lemma upsert_known: "dev_id r \<in> dev_id ` set prev \<Longrightarrow> upsertDiscovered r prev = prev"
  using find_None_iff_id [of "dev_id r" prev]
  by (auto simp: upsertDiscovered_def split: option.splits)

lemma upsert_unknown: "dev_id r \<notin> dev_id ` set prev \<Longrightarrow> upsertDiscovered r prev = prev @ [r]"
  using find_None_iff_id [of "dev_id r" prev]
  by (auto simp: upsertDiscovered_def split: option.splits)

lemma upsert_distinct:
  "distinct (map dev_id prev) \<Longrightarrow> distinct (map dev_id (upsertDiscovered r prev))"
  by (cases "dev_id r \<in> dev_id ` set prev") (simp_all add: upsert_known upsert_unknown)

lemma upsert_ids: "dev_id ` set (upsertDiscovered r prev) = insert (dev_id r) (dev_id ` set prev)"
  by (cases "dev_id r \<in> dev_id ` set prev") (auto simp add: upsert_known upsert_unknown)

lemma fold_upsert_known:
  "\<forall>r\<in>set rs. dev_id r \<in> dev_id ` set prev \<Longrightarrow> fold upsertDiscovered rs prev = prev"
  by (induction rs) (simp_all add: upsert_known)

lemma one_entry_per_id:
  "distinct (map dev_id ds) \<Longrightarrow> i \<in> dev_id ` set ds \<Longrightarrow> length (filter (\<lambda>d. dev_id d = i) ds) = 1"
proof (induction ds)
  case Nil then show ?case by simp
next
  case (Cons d ds)
  show ?case
  proof (cases "dev_id d = i")
    case True
    from Cons.prems True have "dev_id d \<notin> dev_id ` set ds" by simp
    with True have "\<forall>x\<in>set ds. dev_id x \<noteq> i" by blast
    then have "filter (\<lambda>d. dev_id d = i) ds = []"
      by (simp add: filter_empty_conv)
    with True show ?thesis by simp
  next
    case False
    with Cons show ?thesis by auto
  qed
qed

lemma distinct_simulatedDevices: "distinct (map dev_id simulatedDevices)"
  by (simp add: simulatedDevices_def ascii_def)

section \<open>Properties of threads\<close>

lemma getMessages_fold:
  "getMessagesForDevice (fold appendMessage ms s) did =
     getMessagesForDevice s did @ filter (\<lambda>m. deviceId m = did) ms"
  by (induction ms arbitrary: s) (simp_all add: getMessagesForDevice_def appendMessage_def)

text \<open>
  C3. After any sequence of appends, the thread of a device id is the thread before,
  followed by the appended messages that carry that id, in the order of the appends; a
  thread never holds a message with another id; and right after a message is appended,
  the thread of its device id ends with it.
\<close>

theorem thread_exact:
  "getMessagesForDevice (fold appendMessage ms s) did =
     getMessagesForDevice s did @ filter (\<lambda>m. deviceId m = did) ms
   \<and> (\<forall>m \<in> set (getMessagesForDevice s did). deviceId m = did)
   \<and> getMessagesForDevice (appendMessage m s) (deviceId m) \<noteq> []
   \<and> last (getMessagesForDevice (appendMessage m s) (deviceId m)) = m"
  by (simp add: getMessages_fold) (auto simp add: getMessagesForDevice_def appendMessage_def)

theorem thread_exact_witness:
  "getMessagesForDevice
     (fold appendMessage
        [welcomeMessage alice (ascii ''0.1'') (ascii ''t1''),
         welcomeMessage stranger (ascii ''0.2'') (ascii ''t2''),
         responseMessage alice (ascii ''0.3'') (ascii ''t3'') zeroDraw] initialState) (ascii ''1'')
     = [welcomeMessage alice (ascii ''0.1'') (ascii ''t1''),
        responseMessage alice (ascii ''0.3'') (ascii ''t3'') zeroDraw]
   \<and> set (getMessagesForDevice
        (appendMessage (welcomeMessage alice (ascii ''0.1'') (ascii ''t1'')) initialState) (ascii ''1''))
       = {welcomeMessage alice (ascii ''0.1'') (ascii ''t1'')}
   \<and> deviceId (welcomeMessage alice (ascii ''0.1'') (ascii ''t1'')) = ascii ''1''
   \<and> last (getMessagesForDevice
        (appendMessage (welcomeMessage alice (ascii ''0.1'') (ascii ''t1'')) initialState) (ascii ''1''))
       = welcomeMessage alice (ascii ''0.1'') (ascii ''t1'')"
proof -
  let ?w = "welcomeMessage alice (ascii ''0.1'') (ascii ''t1'')"
  have i: "deviceId ?w = ascii ''1''" by (simp add: welcomeMessage_def alice_def)
  have e: "getMessagesForDevice initialState (ascii ''1'') = []"
    by (simp add: getMessagesForDevice_def initialState_def)
  have f: "filter (\<lambda>m. deviceId m = ascii ''1'')
        [?w, welcomeMessage stranger (ascii ''0.2'') (ascii ''t2''),
         responseMessage alice (ascii ''0.3'') (ascii ''t3'') zeroDraw]
      = [?w, responseMessage alice (ascii ''0.3'') (ascii ''t3'') zeroDraw]"
    by (simp add: welcomeMessage_def responseMessage_def alice_def stranger_def ascii_def)
  have s: "set (getMessagesForDevice (appendMessage ?w initialState) (ascii ''1'')) = {?w}"
    using i by (simp add: getMessagesForDevice_def appendMessage_def initialState_def)
  from thread_exact [of "[?w, welcomeMessage stranger (ascii ''0.2'') (ascii ''t2''),
         responseMessage alice (ascii ''0.3'') (ascii ''t3'') zeroDraw]" initialState "ascii ''1''" ?w]
    thread_exact [of "[]" "appendMessage ?w initialState" "ascii ''1''" ?w]
  show ?thesis using i e f s by simp
qed

section \<open>Properties of the states of the page\<close>

lemma mountEffect_reachable:
  assumes "mountEffect hasBluetooth item initialState = Inr s"
  shows "reachable s"
proof -
  have e: "initialState\<lparr>bluetoothSupported := hasBluetooth, devices := simulatedDevices\<rparr> =
      initialState\<lparr>bluetoothSupported := hasBluetooth, messages := [], devices := simulatedDevices\<rparr>"
    by (simp add: initialState_def)
  from assms obtain loaded where
    "s = initialState\<lparr>bluetoothSupported := hasBluetooth, messages := loaded, devices := simulatedDevices\<rparr>"
    by (auto simp: mountEffect_def Let_def e split: option.splits if_splits)
  then show ?thesis by (simp add: reachable.mounted)
qed

lemma runCallback_fields:
  "selectedDevice (runCallback cb rid now u s) = selectedDevice s"
  "connectedDevices (runCallback cb rid now u s) = connectedDevices s"
  "currentMessage (runCallback cb rid now u s) = currentMessage s"
  "devices (runCallback cb rid now u s) = devices s"
  by (cases cb; simp add: appendMessage_def)+

lemma reachable_run: "reachable s \<Longrightarrow> run es s = Some s' \<Longrightarrow> reachable s'"
proof (induction es arbitrary: s)
  case Nil
  then show ?case by simp
next
  case (Cons e es)
  then show ?case by (auto split: option.splits intro: reachable.step)
qed

lemma mount_freshPage: "mountEffect False None initialState = Inr freshPage"
  by (simp add: mountEffect_def freshPage_def initialState_def)

lemma reachable_freshPage: "reachable freshPage"
  using mount_freshPage by (rule mountEffect_reachable)

lemma run_chatting:
  "length text \<le> 500 \<Longrightarrow>
     run [ClickDeviceButton 0, ClickConnectedRow 0, ChangeInput text] freshPage = Some (chatting text)"
  by (simp add: freshPage_def initialState_def simulatedDevices_def chatting_def alice_def
      connectToDevice_def setTimeout_def setSelectedDevice_def setCurrentMessage_def Let_def ascii_def)

lemma reachable_chatting: "length text \<le> 500 \<Longrightarrow> reachable (chatting text)"
  using reachable_run [OF reachable_freshPage run_chatting] .

text \<open>The input never holds more than 500 code units, and the ids of the registry are distinct.\<close>

lemma dispatch_input_bound:
  assumes "dispatch e s = Some s'" and "length (currentMessage s) \<le> 500"
  shows "length (currentMessage s') \<le> 500"
proof (cases e)
  case ClickScan
  with assms show ?thesis
    by (auto simp: scanForDevices_def setTimeout_def Let_def split: if_splits requestOutcome.splits option.splits)
next
  case (RequestSettles outcome rid)
  with assms show ?thesis
    by (auto simp: scanSettled_def setTimeout_def Let_def split: if_splits requestOutcome.splits option.splits)
next
  case (ClickDeviceButton i)
  with assms show ?thesis
    by (auto simp: connectToDevice_def setTimeout_def disconnectDevice_def Let_def split: if_splits)
next
  case (ClickConnectedRow i)
  with assms show ?thesis by (auto simp: setSelectedDevice_def split: if_splits)
next
  case (ChangeInput v)
  with assms show ?thesis by (auto simp: setCurrentMessage_def split: if_splits)
next
  case (SubmitMessage rid now u)
  with assms show ?thesis
    by (auto simp: sendMessage_def setTimeout_def appendMessage_def split: if_splits option.splits)
next
  case (TimerFires k rid now u)
  with assms show ?thesis
    by (auto simp: fireTimer_def runCallback_fields split: if_splits)
next
  case (Elapse ms)
  with assms show ?thesis by (auto split: if_splits)
qed

lemma reachable_input_bound: "reachable s \<Longrightarrow> length (currentMessage s) \<le> 500"
proof (induction rule: reachable.induct)
  case (mounted hasBluetooth loaded)
  show ?case by (simp add: initialState_def)
next
  case (step s e s')
  from step.hyps(2) step.IH show ?case by (rule dispatch_input_bound)
qed

lemma dispatch_registry_distinct:
  assumes "dispatch e s = Some s'" and "distinct (map dev_id (devices s))"
  shows "distinct (map dev_id (devices s'))"
proof (cases e)
  case ClickScan
  with assms show ?thesis
    by (auto simp: scanForDevices_def setTimeout_def Let_def upsert_distinct
        split: if_splits requestOutcome.splits option.splits)
next
  case (RequestSettles outcome rid)
  with assms show ?thesis
    by (auto simp: scanSettled_def setTimeout_def Let_def upsert_distinct
        split: if_splits requestOutcome.splits option.splits)
next
  case (ClickDeviceButton i)
  have "\<And>f. (\<And>d. dev_id (f d) = dev_id d) \<Longrightarrow> map dev_id (map f (devices s)) = map dev_id (devices s)"
    by simp
  with ClickDeviceButton assms show ?thesis
    by (auto simp: connectToDevice_def setTimeout_def disconnectDevice_def Let_def comp_def if_distrib
        split: if_splits cong: if_cong)
next
  case (ClickConnectedRow i)
  with assms show ?thesis by (auto simp: setSelectedDevice_def split: if_splits)
next
  case (ChangeInput v)
  with assms show ?thesis by (auto simp: setCurrentMessage_def split: if_splits)
next
  case (SubmitMessage rid now u)
  with assms show ?thesis
    by (auto simp: sendMessage_def setTimeout_def appendMessage_def split: if_splits option.splits)
next
  case (TimerFires k rid now u)
  with assms show ?thesis
    by (auto simp: fireTimer_def runCallback_fields split: if_splits)
next
  case (Elapse ms)
  with assms show ?thesis by (auto split: if_splits)
qed

lemma reachable_registry_distinct: "reachable s \<Longrightarrow> distinct (map dev_id (devices s))"
proof (induction rule: reachable.induct)
  case (mounted hasBluetooth loaded)
  show ?case by (simp add: distinct_simulatedDevices)
next
  case (step s e s')
  from step.hyps(2) step.IH show ?case by (rule dispatch_registry_distinct)
qed

text \<open>The ids of the connected list are ids of the registry.\<close>

lemma ids_mark:
  "dev_id ` set (map (\<lambda>d. if dev_id d = i then d\<lparr>dev_connected := b\<rparr> else d) ds) = dev_id ` set ds"
  by (induction ds) auto

lemma connect_devices_ids: "dev_id ` set (devices (connectToDevice device s)) = dev_id ` set (devices s)"
proof -
  have "devices (connectToDevice device s) =
      map (\<lambda>d. if dev_id d = dev_id device then d\<lparr>dev_connected := True\<rparr> else d) (devices s)"
    by (simp add: connectToDevice_def setTimeout_def)
  then show ?thesis by (simp only: ids_mark)
qed

lemma disconnect_devices_ids: "dev_id ` set (devices (disconnectDevice device s)) = dev_id ` set (devices s)"
proof -
  have "devices (disconnectDevice device s) =
      map (\<lambda>d. if dev_id d = dev_id device then d\<lparr>dev_connected := False\<rparr> else d) (devices s)"
    by (simp add: disconnectDevice_def)
  then show ?thesis by (simp only: ids_mark)
qed

lemma scan_connected: "connectedDevices (scanSettled outcome rid s) = connectedDevices s"
  by (simp add: scanSettled_def setTimeout_def Let_def split: requestOutcome.splits option.splits)

lemma scan_devices_ids: "dev_id ` set (devices s) \<subseteq> dev_id ` set (devices (scanSettled outcome rid s))"
  by (auto simp: scanSettled_def setTimeout_def Let_def upsert_ids split: requestOutcome.splits option.splits)

lemma dispatch_connected_known:
  assumes "dispatch e s = Some s'" and "dev_id ` set (connectedDevices s) \<subseteq> dev_id ` set (devices s)"
  shows "dev_id ` set (connectedDevices s') \<subseteq> dev_id ` set (devices s')"
proof (cases e)
  case ClickScan
  with assms(1) have "connectedDevices s' = connectedDevices s" "devices s' = devices s"
    by (auto simp: scanForDevices_def setTimeout_def Let_def split: if_splits)
  with assms(2) show ?thesis by simp
next
  case (RequestSettles outcome rid)
  with assms(1) have s': "s' = scanSettled outcome rid s" by (simp split: if_splits)
  have "dev_id ` set (connectedDevices s') = dev_id ` set (connectedDevices s)"
    by (simp only: s' scan_connected)
  also note assms(2)
  also have "dev_id ` set (devices s) \<subseteq> dev_id ` set (devices s')"
    unfolding s' by (rule scan_devices_ids)
  finally show ?thesis .
next
  case (ClickDeviceButton i)
  with assms(1) have i: "i < length (devices s)"
    and s': "s' = (if dev_connected (devices s ! i) then disconnectDevice (devices s ! i) s
                   else connectToDevice (devices s ! i) s)"
    by (simp_all add: Let_def split: if_splits)
  show ?thesis
  proof (cases "dev_connected (devices s ! i)")
    case True
    with s' have e: "s' = disconnectDevice (devices s ! i) s" by simp
    have "set (connectedDevices s') \<subseteq> set (connectedDevices s)"
      unfolding e by (simp add: disconnectDevice_def)
    then have "dev_id ` set (connectedDevices s') \<subseteq> dev_id ` set (connectedDevices s)"
      by (rule image_mono)
    also note assms(2)
    also have "dev_id ` set (devices s) = dev_id ` set (devices s')"
      unfolding e by (rule disconnect_devices_ids [symmetric])
    finally show ?thesis .
  next
    case False
    with s' have e: "s' = connectToDevice (devices s ! i) s" by simp
    have k: "dev_id (devices s ! i) \<in> dev_id ` set (devices s)" using i by simp
    have "dev_id ` set (connectedDevices s') =
        insert (dev_id (devices s ! i)) (dev_id ` set (connectedDevices s))"
      unfolding e by (simp add: connectToDevice_def setTimeout_def)
    also have "\<dots> \<subseteq> dev_id ` set (devices s)" using k assms(2) by (rule insert_subsetI)
    also have "dev_id ` set (devices s) = dev_id ` set (devices s')"
      unfolding e by (rule connect_devices_ids [symmetric])
    finally show ?thesis .
  qed
next
  case (ClickConnectedRow i)
  with assms(1) have "connectedDevices s' = connectedDevices s" "devices s' = devices s"
    by (auto simp: setSelectedDevice_def split: if_splits)
  with assms(2) show ?thesis by simp
next
  case (ChangeInput v)
  with assms(1) have "connectedDevices s' = connectedDevices s" "devices s' = devices s"
    by (auto simp: setCurrentMessage_def split: if_splits)
  with assms(2) show ?thesis by simp
next
  case (SubmitMessage rid now u)
  with assms(1) have "connectedDevices s' = connectedDevices s" "devices s' = devices s"
    by (auto simp: sendMessage_def setTimeout_def appendMessage_def split: if_splits option.splits)
  with assms(2) show ?thesis by simp
next
  case (TimerFires k rid now u)
  with assms(1) have "connectedDevices s' = connectedDevices s" "devices s' = devices s"
    by (auto simp: fireTimer_def runCallback_fields split: if_splits)
  with assms(2) show ?thesis by simp
next
  case (Elapse ms)
  with assms(1) have "connectedDevices s' = connectedDevices s" "devices s' = devices s"
    by (auto split: if_splits)
  with assms(2) show ?thesis by simp
qed

lemma reachable_connected_known:
  "reachable s \<Longrightarrow> dev_id ` set (connectedDevices s) \<subseteq> dev_id ` set (devices s)"
proof (induction rule: reachable.induct)
  case (mounted hasBluetooth loaded)
  show ?case by (simp add: initialState_def)
next
  case (step s e s')
  from step.hyps(2) step.IH show ?case by (rule dispatch_connected_known)
qed

section \<open>Properties of discovery\<close>

lemma scanSettled_devices:
  "nm \<noteq> [] \<Longrightarrow>
     devices (scanSettled (Chosen did (Some nm)) rid s) = upsertDiscovered (newDevice did nm rid) (devices s)"
  by (simp add: scanSettled_def setTimeout_def Let_def)

lemma upsert_fold_one_entry:
  assumes "distinct (map dev_id prev)" and "rs \<noteq> []" and "\<forall>r\<in>set rs. dev_id r = i"
  shows "length (filter (\<lambda>d. dev_id d = i) (fold upsertDiscovered rs prev)) = 1
       \<and> (i \<in> dev_id ` set prev \<longrightarrow> fold upsertDiscovered rs prev = prev)"
proof -
  obtain r rs' where rs: "rs = r # rs'" using assms(2) by (cases rs) auto
  let ?p1 = "upsertDiscovered r prev"
  have i1: "i \<in> dev_id ` set ?p1" using assms(3) rs by (simp add: upsert_ids)
  have d1: "distinct (map dev_id ?p1)" using assms(1) by (rule upsert_distinct)
  have "\<forall>r\<in>set rs'. dev_id r \<in> dev_id ` set ?p1" using assms(3) rs i1 by simp
  then have f: "fold upsertDiscovered rs prev = ?p1" by (simp add: rs fold_upsert_known)
  have "length (filter (\<lambda>d. dev_id d = i) ?p1) = 1" using d1 i1 by (rule one_entry_per_id)
  moreover have "i \<in> dev_id ` set prev \<longrightarrow> ?p1 = prev" using assms(3) rs by (simp add: upsert_known)
  ultimately show ?thesis using f by simp
qed

text \<open>
  C4. \<open>upsertDiscovered\<close> is idempotent by device id. In every state the page
  reaches, after one or more submissions of records with the id \<open>i\<close> (their other
  fields may differ) exactly one entry of the registry has that id; when the id was
  already known the registry is what it was: a submission of a known id changes nothing,
  whatever name, kind or signal strength it carries, and a submission of an unknown id
  appends the record. This is the update \<open>scanForDevices\<close> makes for a device with a
  name.
\<close>

theorem upsertDiscovered_idempotent:
  assumes "reachable s" and "rs \<noteq> []" and "\<forall>r\<in>set rs. dev_id r = i"
  shows "length (filter (\<lambda>d. dev_id d = i) (fold upsertDiscovered rs (devices s))) = 1
       \<and> (i \<in> dev_id ` set (devices s) \<longrightarrow> fold upsertDiscovered rs (devices s) = devices s)
       \<and> (\<forall>r. dev_id r \<in> dev_id ` set (devices s) \<longrightarrow> upsertDiscovered r (devices s) = devices s)
       \<and> (\<forall>r. dev_id r \<notin> dev_id ` set (devices s) \<longrightarrow> upsertDiscovered r (devices s) = devices s @ [r])
       \<and> (nm \<noteq> [] \<longrightarrow>
            devices (scanSettled (Chosen did (Some nm)) rid s) =
              upsertDiscovered (newDevice did nm rid) (devices s))"
  using upsert_fold_one_entry [OF reachable_registry_distinct [OF assms(1)] assms(2) assms(3)]
  by (simp add: upsert_known upsert_unknown scanSettled_devices)

theorem upsertDiscovered_idempotent_witness:
  "reachable freshPage
   \<and> [stranger, stranger\<lparr>dev_name := ascii ''Bob'', dev_rssi := - 70\<rparr>, stranger] \<noteq> []
   \<and> length (filter (\<lambda>d. dev_id d = ascii ''d1'')
        (fold upsertDiscovered [stranger, stranger\<lparr>dev_name := ascii ''Bob'', dev_rssi := - 70\<rparr>, stranger]
           (devices freshPage))) = 1
   \<and> fold upsertDiscovered [stranger, stranger\<lparr>dev_name := ascii ''Bob'', dev_rssi := - 70\<rparr>, stranger]
        (devices freshPage) = simulatedDevices @ [stranger]
   \<and> dev_id stranger \<notin> dev_id ` set (devices freshPage)
   \<and> upsertDiscovered stranger (devices freshPage) = simulatedDevices @ [stranger]
   \<and> dev_id (alice\<lparr>dev_name := ascii ''Eve'', dev_rssi := - 10\<rparr>) \<in> dev_id ` set (devices freshPage)
   \<and> upsertDiscovered (alice\<lparr>dev_name := ascii ''Eve'', dev_rssi := - 10\<rparr>) (devices freshPage)
       = devices freshPage
   \<and> [alice\<lparr>dev_name := ascii ''Eve'', dev_rssi := - 10\<rparr>, alice] \<noteq> []
   \<and> ascii ''1'' \<in> dev_id ` set (devices freshPage)
   \<and> fold upsertDiscovered [alice\<lparr>dev_name := ascii ''Eve'', dev_rssi := - 10\<rparr>, alice] (devices freshPage)
       = devices freshPage
   \<and> ascii ''Dora'' \<noteq> []
   \<and> devices (scanSettled (Chosen (ascii ''d1'') (Some (ascii ''Dora''))) (ascii ''0.3'') freshPage)
       = simulatedDevices @
           [\<lparr>dev_id = ascii ''d1'', dev_name = ascii ''Dora'', dev_type = UnknownType,
             dev_connected = False, dev_rssi = - 50\<rparr>]
   \<and> devices freshPage = simulatedDevices"
proof -
  let ?rs = "[stranger, stranger\<lparr>dev_name := ascii ''Bob'', dev_rssi := - 70\<rparr>, stranger]"
  let ?as = "[alice\<lparr>dev_name := ascii ''Eve'', dev_rssi := - 10\<rparr>, alice]"
  have n: "?rs \<noteq> []" and n2: "?as \<noteq> []" by simp_all
  have a: "\<forall>r\<in>set ?rs. dev_id r = ascii ''d1''"
    by (simp add: stranger_def)
  have a2: "\<forall>r\<in>set ?as. dev_id r = ascii ''1''"
    by (simp add: alice_def)
  have d: "devices freshPage = simulatedDevices" by (simp add: freshPage_def)
  have k: "dev_id (alice\<lparr>dev_name := ascii ''Eve'', dev_rssi := - 10\<rparr>) \<in> dev_id ` set (devices freshPage)"
    and k1: "ascii ''1'' \<in> dev_id ` set (devices freshPage)"
    by (simp_all add: d alice_def simulatedDevices_def)
  have u: "dev_id stranger \<notin> dev_id ` set (devices freshPage)"
    by (simp add: d simulatedDevices_def stranger_def ascii_def)
  have f: "fold upsertDiscovered ?rs (devices freshPage) = simulatedDevices @ [stranger]"
    by (simp add: d upsertDiscovered_def stranger_def simulatedDevices_def ascii_def)
  have nd: "newDevice (ascii ''d1'') (ascii ''Dora'') (ascii ''0.3'') =
      \<lparr>dev_id = ascii ''d1'', dev_name = ascii ''Dora'', dev_type = UnknownType,
        dev_connected = False, dev_rssi = - 50\<rparr>"
    and nn: "ascii ''Dora'' \<noteq> []"
    by (simp_all add: newDevice_def ascii_def)
  have ud: "dev_id \<lparr>dev_id = ascii ''d1'', dev_name = ascii ''Dora'', dev_type = UnknownType,
        dev_connected = False, dev_rssi = - 50\<rparr> \<notin> dev_id ` set (devices freshPage)"
    by (simp add: d simulatedDevices_def ascii_def)
  note th1 = upsertDiscovered_idempotent [OF reachable_freshPage n a, where nm = "ascii ''Dora''"
      and did = "ascii ''d1''" and rid = "ascii ''0.3''"]
  note th2 = upsertDiscovered_idempotent [OF reachable_freshPage n2 a2]
  have g: "fold upsertDiscovered ?as (devices freshPage) = devices freshPage"
    using th2 k1 by blast
  have h: "upsertDiscovered stranger (devices freshPage) = simulatedDevices @ [stranger]"
    using th1 u d by simp
  have s: "devices (scanSettled (Chosen (ascii ''d1'') (Some (ascii ''Dora''))) (ascii ''0.3'') freshPage)
       = simulatedDevices @
           [\<lparr>dev_id = ascii ''d1'', dev_name = ascii ''Dora'', dev_type = UnknownType,
             dev_connected = False, dev_rssi = - 50\<rparr>]"
    using th1 nn ud d by (simp add: nd)
  have e: "upsertDiscovered (alice\<lparr>dev_name := ascii ''Eve'', dev_rssi := - 10\<rparr>) (devices freshPage)
       = devices freshPage"
    using th1 k by blast
  have c: "length (filter (\<lambda>d. dev_id d = ascii ''d1'') (fold upsertDiscovered ?rs (devices freshPage))) = 1"
    using th1 by blast
  from reachable_freshPage n c f u h k e n2 k1 g nn s d
  show ?thesis by (intro conjI)
qed

section \<open>Properties of sending\<close>

text \<open>
  C10. When the pending text is empty or consists of white space only, or no device is
  selected, \<open>sendMessage\<close> returns the state it was given: no message is appended, no
  timer is scheduled, nothing else changes, and there is no error to raise.
\<close>

theorem sendMessage_blank_noop:
  "(\<forall>c\<in>set (currentMessage s). isWhiteSpace c) \<or> selectedDevice s = None
     \<Longrightarrow> sendMessage rid now u s = s"
  by (auto simp: sendMessage_def setTimeout_def trim_Nil_iff split: option.splits)

theorem sendMessage_blank_noop_witness:
  "currentMessage (chatting (ascii ''  '')) = [32, 32] \<and> isWhiteSpace 32
   \<and> sendMessage (ascii ''0.5'') (ascii ''t'') halfDraw (chatting (ascii ''  '')) = chatting (ascii ''  '')
   \<and> selectedDevice (freshPage\<lparr>currentMessage := ascii ''hi''\<rparr>) = None
   \<and> sendMessage (ascii ''0.5'') (ascii ''t'') halfDraw (freshPage\<lparr>currentMessage := ascii ''hi''\<rparr>)
       = freshPage\<lparr>currentMessage := ascii ''hi''\<rparr>"
proof -
  have 1: "\<forall>c\<in>set (currentMessage (chatting (ascii ''  ''))). isWhiteSpace c"
    by (simp add: chatting_def ascii_def isWhiteSpace_def)
  have 2: "selectedDevice (freshPage\<lparr>currentMessage := ascii ''hi''\<rparr>) = None"
    by (simp add: freshPage_def initialState_def)
  from sendMessage_blank_noop [of "chatting (ascii ''  '')" "ascii ''0.5''" "ascii ''t''" halfDraw]
    sendMessage_blank_noop [of "freshPage\<lparr>currentMessage := ascii ''hi''\<rparr>" "ascii ''0.5''" "ascii ''t''" halfDraw]
    1 2 show ?thesis by (simp add: chatting_def ascii_def isWhiteSpace_def)
qed

lemma trim_replicate: "\<not> isWhiteSpace c \<Longrightarrow> trim (replicate n c) = replicate n c"
proof (cases n)
  case 0
  then show ?thesis by (simp add: trim_def)
next
  case (Suc k)
  assume "\<not> isWhiteSpace c"
  then show ?thesis by (intro trim_id) (simp_all add: Suc hd_replicate last_replicate del: replicate_Suc)
qed

lemma not_ws_a: "\<not> isWhiteSpace 97"
  by (simp add: isWhiteSpace_def)

text \<open>
  \<open>sendMessage\<close> has no check on the length of the text and raises no error: a text of
  501 code units is appended, and a text that is one space, which is neither empty nor
  longer than 500, is not.
\<close>

theorem append_validation_counterexample:
  "length (currentMessage (chatting (replicate 501 97))) = 501
   \<and> map content (messages (sendMessage (ascii ''0.5'') (ascii ''t'') halfDraw (chatting (replicate 501 97))))
       = [replicate 501 97]
   \<and> currentMessage (chatting [32]) \<noteq> [] \<and> length (currentMessage (chatting [32])) \<le> 500
   \<and> messages (sendMessage (ascii ''0.5'') (ascii ''t'') halfDraw (chatting [32])) = messages (chatting [32])"
proof -
  have t: "trim (replicate 501 97) = replicate 501 97" by (rule trim_replicate [OF not_ws_a])
  have r: "replicate 501 (97 :: 16 word) \<noteq> []" by simp
  have b: "trim [32] = []" by (simp add: trim_def isWhiteSpace_def)
  show ?thesis
    using t r b
    by (simp add: sendMessage_def setTimeout_def chatting_def freshPage_def initialState_def appendMessage_def outboundMessage_def)
qed

text \<open>
  C2, as the code has it. \<open>sendMessage\<close> appends a message exactly when the trimmed
  text is not empty and a device is selected, and otherwise returns without an error.
  What it appends is the trimmed text, which is never longer than the text of the input.
  The bound of 500 is the \<open>maxLength\<close> of the input field, not a check of
  \<open>sendMessage\<close>: the field does not take a longer text, so in every state the page
  reaches the text \<open>sendMessage\<close> finds has at most 500 code units.
\<close>

theorem sendMessage_accepts:
  "(messages (sendMessage rid now u s) \<noteq> messages s)
     = (trim (currentMessage s) \<noteq> [] \<and> selectedDevice s \<noteq> None)
   \<and> (selectedDevice s = Some sd \<and> trim (currentMessage s) \<noteq> [] \<longrightarrow>
        messages (sendMessage rid now u s) =
          messages s @ [\<lparr>msg_id = rid, deviceId = dev_id sd, deviceName = dev_name sd,
                          content = trim (currentMessage s), timestamp = DateObject now, sent = True\<rparr>])
   \<and> length (trim (currentMessage s)) \<le> length (currentMessage s)
   \<and> (500 < length v \<longrightarrow> dispatch (ChangeInput v) s = None)
   \<and> (reachable s \<longrightarrow> length (trim (currentMessage s)) \<le> 500)"
proof -
  have "reachable s \<longrightarrow> length (trim (currentMessage s)) \<le> 500"
    using reachable_input_bound [of s] length_trim [of "currentMessage s"] by auto
  then show ?thesis
    by (auto simp: sendMessage_def setTimeout_def appendMessage_def outboundMessage_def length_trim split: option.splits)
qed

theorem sendMessage_accepts_witness:
  "selectedDevice (chatting (replicate 500 97)) = Some (alice\<lparr>dev_connected := True\<rparr>)
   \<and> trim (currentMessage (chatting (replicate 500 97))) \<noteq> []
   \<and> messages (sendMessage (ascii ''0.5'') (ascii ''t'') halfDraw (chatting (replicate 500 97))) =
        [\<lparr>msg_id = ascii ''0.5'', deviceId = ascii ''1'', deviceName = ascii ''Alice's iPhone'',
          content = replicate 500 97, timestamp = DateObject (ascii ''t''), sent = True\<rparr>]
   \<and> 500 < length (replicate 501 (97 :: 16 word))
   \<and> dispatch (ChangeInput (replicate 501 97)) (chatting []) = None
   \<and> reachable (chatting (replicate 500 97))
   \<and> length (trim (currentMessage (chatting (replicate 500 97)))) \<le> 500"
proof -
  have 6: "reachable (chatting (replicate 500 97))" by (rule reachable_chatting) simp
  have t: "trim (replicate 500 97) = replicate 500 97" by (rule trim_replicate [OF not_ws_a])
  have r: "replicate 500 (97 :: 16 word) \<noteq> []" by simp
  have 1: "selectedDevice (chatting (replicate 500 97)) = Some (alice\<lparr>dev_connected := True\<rparr>)"
    by (simp add: chatting_def)
  have 2: "trim (currentMessage (chatting (replicate 500 97))) \<noteq> []"
    using t r by (simp add: chatting_def)
  have 3: "currentMessage (chatting (replicate 500 97)) = replicate 500 97"
    and 4: "messages (chatting (replicate 500 97)) = []"
    by (simp_all add: chatting_def freshPage_def initialState_def)
  have 5: "500 < length (replicate 501 (97 :: 16 word))" by simp
  from sendMessage_accepts [of "ascii ''0.5''" "ascii ''t''" halfDraw "chatting (replicate 500 97)"
      "alice\<lparr>dev_connected := True\<rparr>" "replicate 501 97"]
    sendMessage_accepts [of "ascii ''0.5''" "ascii ''t''" halfDraw "chatting []"
      "alice\<lparr>dev_connected := True\<rparr>" "replicate 501 97"]
    1 2 5 6
  show ?thesis
    by (simp add: 3 4 t alice_def)
qed

section \<open>Properties of connecting\<close>

text \<open>
  \<open>connectToDevice\<close> on a device whose id is in no registry entry does not fail: the
  device joins the connected list.
\<close>

theorem connect_unknown_counterexample:
  "dev_id stranger \<notin> dev_id ` set (devices freshPage)
   \<and> connectedDevices freshPage = []
   \<and> connectedDevices (connectToDevice stranger freshPage) = [stranger\<lparr>dev_connected := True\<rparr>]"
  by (simp add: connectToDevice_def setTimeout_def freshPage_def initialState_def simulatedDevices_def stranger_def ascii_def)

text \<open>
  C1, as the code has it. \<open>connectToDevice\<close> has no registry check and no error. For a
  device whose id is not in the registry it leaves the registry as it is, appends the
  device, marked connected, to the connected list and schedules its welcome message. The
  page calls it only from the rows of the registry, on the device of the row: a row that
  does not exist delivers no event, and in every state the page reaches the ids of the
  connected list are ids of the registry.
\<close>

theorem connect_unknown:
  "(dev_id device \<notin> dev_id ` set (devices s) \<longrightarrow>
      connectToDevice device s =
        s\<lparr>connectedDevices := connectedDevices s @ [device\<lparr>dev_connected := True\<rparr>],
          timers := timers s @ [\<lparr>due = clock s + 1000, callback = WelcomeCallback device\<rparr>]\<rparr>)
   \<and> (reachable s \<longrightarrow> dev_id ` set (connectedDevices s) \<subseteq> dev_id ` set (devices s))
   \<and> (dispatch (ClickDeviceButton i) s = Some s' \<longrightarrow>
        i < length (devices s)
        \<and> s' = (if dev_connected (devices s ! i) then disconnectDevice (devices s ! i) s
                 else connectToDevice (devices s ! i) s))
   \<and> (length (devices s) \<le> i \<longrightarrow> dispatch (ClickDeviceButton i) s = None)"
proof -
  have "dev_id device \<notin> dev_id ` set (devices s) \<longrightarrow>
      map (\<lambda>d. if dev_id d = dev_id device then d\<lparr>dev_connected := True\<rparr> else d) (devices s) = devices s"
  proof
    assume "dev_id device \<notin> dev_id ` set (devices s)"
    then have "\<And>x. x \<in> set (devices s) \<Longrightarrow> dev_id x \<noteq> dev_id device" by (metis imageI)
    then show "map (\<lambda>d. if dev_id d = dev_id device then d\<lparr>dev_connected := True\<rparr> else d) (devices s) = devices s"
      by (intro map_idI) simp
  qed
  then have 1: "dev_id device \<notin> dev_id ` set (devices s) \<longrightarrow>
      connectToDevice device s =
        s\<lparr>connectedDevices := connectedDevices s @ [device\<lparr>dev_connected := True\<rparr>],
          timers := timers s @ [\<lparr>due = clock s + 1000, callback = WelcomeCallback device\<rparr>]\<rparr>"
    by (simp add: connectToDevice_def setTimeout_def)
  have 2: "reachable s \<longrightarrow> dev_id ` set (connectedDevices s) \<subseteq> dev_id ` set (devices s)"
    using reachable_connected_known [of s] by blast
  have 3: "dispatch (ClickDeviceButton i) s = Some s' \<longrightarrow>
        i < length (devices s)
        \<and> s' = (if dev_connected (devices s ! i) then disconnectDevice (devices s ! i) s
                 else connectToDevice (devices s ! i) s)"
    by (auto simp: Let_def split: if_splits)
  have 4: "length (devices s) \<le> i \<longrightarrow> dispatch (ClickDeviceButton i) s = None"
    by simp
  from 1 2 3 4 show ?thesis by (intro conjI)
qed

theorem connect_unknown_witness:
  "dev_id stranger \<notin> dev_id ` set (devices freshPage)
   \<and> connectToDevice stranger freshPage =
       freshPage\<lparr>connectedDevices := [stranger\<lparr>dev_connected := True\<rparr>],
         timers := [\<lparr>due = 1000, callback = WelcomeCallback stranger\<rparr>]\<rparr>
   \<and> dispatch (ClickDeviceButton 0) freshPage = Some (connectToDevice alice freshPage)
   \<and> devices freshPage ! 0 = alice
   \<and> reachable (connectToDevice alice freshPage)
   \<and> dev_id ` set (connectedDevices (connectToDevice alice freshPage))
       \<subseteq> dev_id ` set (devices (connectToDevice alice freshPage))
   \<and> dev_id ` set (connectedDevices (connectToDevice alice freshPage)) = {ascii ''1''}
   \<and> length (devices freshPage) \<le> 4
   \<and> dispatch (ClickDeviceButton 4) freshPage = None"
proof -
  let ?c = "connectToDevice alice freshPage"
  have u: "dev_id stranger \<notin> dev_id ` set (devices freshPage)"
    by (simp add: freshPage_def initialState_def simulatedDevices_def stranger_def ascii_def)
  have c: "dispatch (ClickDeviceButton 0) freshPage = Some ?c"
    by (simp add: freshPage_def initialState_def simulatedDevices_def alice_def Let_def)
  have a: "devices freshPage ! 0 = alice"
    by (simp add: freshPage_def simulatedDevices_def alice_def)
  have r: "reachable ?c"
    using reachable_freshPage c by (rule reachable.step)
  have l: "length (devices freshPage) \<le> 4" by (simp add: freshPage_def simulatedDevices_def)
  have k: "dev_id ` set (connectedDevices ?c) = {ascii ''1''}"
    by (simp add: connectToDevice_def setTimeout_def freshPage_def initialState_def alice_def)
  have 1: "connectToDevice stranger freshPage =
       freshPage\<lparr>connectedDevices := [stranger\<lparr>dev_connected := True\<rparr>],
         timers := [\<lparr>due = 1000, callback = WelcomeCallback stranger\<rparr>]\<rparr>"
    using connect_unknown [of stranger freshPage] u by (simp add: freshPage_def initialState_def)
  have 2: "dev_id ` set (connectedDevices ?c) \<subseteq> dev_id ` set (devices ?c)"
    using connect_unknown [of _ ?c] r by blast
  have 3: "dispatch (ClickDeviceButton 4) freshPage = None"
    using connect_unknown [of _ freshPage 4] l by blast
  from u 1 c a r 2 k l 3 show ?thesis by (intro conjI)
qed

lemma filter_remove_nth:
  "k < length xs \<Longrightarrow>
     length (filter P (take k xs @ drop (Suc k) xs)) + (if P (xs ! k) then 1 else 0) = length (filter P xs)"
proof -
  assume k: "k < length xs"
  then have "xs = take k xs @ (xs ! k) # drop (Suc k) xs" by (simp add: id_take_nth_drop)
  then have "length (filter P xs) = length (filter P (take k xs @ (xs ! k) # drop (Suc k) xs))" by simp
  then show ?thesis by simp
qed

lemma welcome_accounting:
  assumes "dispatch e s = Some s'"
  shows "deliveredWelcomes did s' + pendingWelcomes did s' =
         deliveredWelcomes did s + pendingWelcomes did s + connectsOf did e s"
proof (cases e)
  case ClickScan
  with assms show ?thesis
    by (auto simp: deliveredWelcomes_def pendingWelcomes_def getMessagesForDevice_def scanForDevices_def setTimeout_def Let_def
        split: if_splits requestOutcome.splits option.splits)
next
  case (RequestSettles outcome rid)
  with assms show ?thesis
    by (auto simp: deliveredWelcomes_def pendingWelcomes_def getMessagesForDevice_def scanSettled_def setTimeout_def Let_def
        split: if_splits requestOutcome.splits option.splits)
next
  case (ClickDeviceButton i)
  with assms show ?thesis
    by (auto simp: deliveredWelcomes_def pendingWelcomes_def getMessagesForDevice_def
        connectToDevice_def setTimeout_def disconnectDevice_def Let_def split: if_splits)
next
  case (ClickConnectedRow i)
  with assms show ?thesis
    by (auto simp: deliveredWelcomes_def pendingWelcomes_def getMessagesForDevice_def setSelectedDevice_def split: if_splits)
next
  case (ChangeInput v)
  with assms show ?thesis
    by (auto simp: deliveredWelcomes_def pendingWelcomes_def getMessagesForDevice_def setCurrentMessage_def split: if_splits)
next
  case (SubmitMessage rid now u)
  with assms show ?thesis
    by (auto simp: deliveredWelcomes_def pendingWelcomes_def getMessagesForDevice_def sendMessage_def setTimeout_def
        appendMessage_def outboundMessage_def isWelcome_def split: if_splits option.splits)
next
  case (TimerFires k rid now u)
  with assms have k: "k < length (timers s)"
    and s': "s' = runCallback (callback (timers s ! k)) rid now u (s\<lparr>timers := take k (timers s) @ drop (Suc k) (timers s)\<rparr>)"
    by (auto simp: fireTimer_def split: if_splits)
  let ?P = "\<lambda>t. case callback t of WelcomeCallback d \<Rightarrow> dev_id d = did | _ \<Rightarrow> False"
  note rm = filter_remove_nth [OF k, of ?P]
  show ?thesis
  proof (cases "callback (timers s ! k)")
    case ScanDone
    with rm show ?thesis
      by (simp add: s' TimerFires deliveredWelcomes_def pendingWelcomes_def getMessagesForDevice_def)
  next
    case (WelcomeCallback d)
    with rm show ?thesis
      by (auto simp add: s' TimerFires deliveredWelcomes_def pendingWelcomes_def getMessagesForDevice_def
          appendMessage_def welcomeMessage_def isWelcome_def split: if_splits)
  next
    case ScrollCallback
    with rm show ?thesis
      by (simp add: s' TimerFires deliveredWelcomes_def pendingWelcomes_def getMessagesForDevice_def)
  next
    case (ResponseCallback d)
    with rm responses_not_welcome [OF responseIndex_less, of u] show ?thesis
      by (simp add: s' TimerFires deliveredWelcomes_def pendingWelcomes_def getMessagesForDevice_def
          appendMessage_def responseMessage_def isWelcome_def)
  qed
next
  case (Elapse ms)
  with assms show ?thesis
    by (auto simp: deliveredWelcomes_def pendingWelcomes_def getMessagesForDevice_def split: if_splits)
qed

text \<open>
  C6. \<open>connectToDevice\<close> schedules one timer, due a fixed 1000 ms after the call, with
  the welcome callback of the connecting device; it appends no message itself and does
  not move the clock. A pending welcome timer of the device cannot fire before it is
  due; from then on it can, and when it fires it leaves the pending list and one inbound
  message with the device's id and name and the fixed text is appended. Over every event
  of the page, the welcome messages delivered on a thread plus the welcome timers pending
  for it grow by exactly one at a connection of a device with that id and do not change
  otherwise: one welcome message per connection, once its timer has fired.
\<close>

theorem connect_welcome:
  "timers (connectToDevice device s) =
     timers s @ [\<lparr>due = clock s + 1000, callback = WelcomeCallback device\<rparr>]
   \<and> messages (connectToDevice device s) = messages s
   \<and> clock (connectToDevice device s) = clock s
   \<and> (k < length (timers t) \<and> callback (timers t ! k) = WelcomeCallback device \<longrightarrow>
        fireTimer k rid now u t =
          (if due (timers t ! k) \<le> clock t
           then Some (t\<lparr>timers := take k (timers t) @ drop (Suc k) (timers t),
                       messages := messages t @
                         [\<lparr>msg_id = rid, deviceId = dev_id device, deviceName = dev_name device,
                           content = ascii ''Hello! I'm connected via Bluetooth.'',
                           timestamp = DateObject now, sent = False\<rparr>]\<rparr>)
           else None))
   \<and> (dispatch e t = Some t' \<longrightarrow>
        deliveredWelcomes did t' + pendingWelcomes did t' =
          deliveredWelcomes did t + pendingWelcomes did t + connectsOf did e t)"
  using welcome_accounting [of e t t' did]
  by (simp add: connectToDevice_def setTimeout_def fireTimer_def appendMessage_def welcomeMessage_def)

lemma freshPage_connect:
  "dispatch (ClickDeviceButton 0) freshPage = Some (connectToDevice alice freshPage)"
  by (simp add: freshPage_def initialState_def simulatedDevices_def alice_def Let_def)

theorem connect_welcome_witness:
  "0 < length (timers (connectToDevice alice freshPage))
   \<and> timers (connectToDevice alice freshPage) = [\<lparr>due = 1000, callback = WelcomeCallback alice\<rparr>]
   \<and> clock (connectToDevice alice freshPage) = 0
   \<and> fireTimer 0 (ascii ''0.7'') (ascii ''t'') halfDraw (connectToDevice alice freshPage) = None
   \<and> dispatch (Elapse 1000) (connectToDevice alice freshPage) =
        Some ((connectToDevice alice freshPage)\<lparr>clock := 1000\<rparr>)
   \<and> fireTimer 0 (ascii ''0.7'') (ascii ''t'') halfDraw ((connectToDevice alice freshPage)\<lparr>clock := 1000\<rparr>) =
        Some ((connectToDevice alice freshPage)
          \<lparr>clock := 1000, timers := [],
           messages := [\<lparr>msg_id = ascii ''0.7'', deviceId = ascii ''1'', deviceName = ascii ''Alice's iPhone'',
                         content = ascii ''Hello! I'm connected via Bluetooth.'',
                         timestamp = DateObject (ascii ''t''), sent = False\<rparr>]\<rparr>)
   \<and> dispatch (ClickDeviceButton 0) freshPage = Some (connectToDevice alice freshPage)
   \<and> deliveredWelcomes (ascii ''1'') (connectToDevice alice freshPage)
       + pendingWelcomes (ascii ''1'') (connectToDevice alice freshPage) = 1"
proof -
  let ?c = "connectToDevice alice freshPage"
  have 1: "timers ?c = [\<lparr>due = 1000, callback = WelcomeCallback alice\<rparr>]"
    and 2: "messages ?c = []" and 0: "clock ?c = 0"
    by (simp_all add: connectToDevice_def setTimeout_def freshPage_def initialState_def)
  have 3: "deliveredWelcomes (ascii ''1'') freshPage = 0" "pendingWelcomes (ascii ''1'') freshPage = 0"
    by (simp_all add: deliveredWelcomes_def pendingWelcomes_def getMessagesForDevice_def freshPage_def initialState_def)
  have 4: "connectsOf (ascii ''1'') (ClickDeviceButton 0) freshPage = 1"
    by (simp add: freshPage_def initialState_def simulatedDevices_def)
  have 5: "dev_id alice = ascii ''1''" "dev_name alice = ascii ''Alice's iPhone''"
    by (simp_all add: alice_def)
  have e: "fireTimer 0 (ascii ''0.7'') (ascii ''t'') halfDraw ?c = None"
    using connect_welcome [where device = alice and s = freshPage and k = 0 and t = ?c
      and rid = "ascii ''0.7''" and now = "ascii ''t''" and u = halfDraw]
    by (simp add: 0 1)
  have f: "fireTimer 0 (ascii ''0.7'') (ascii ''t'') halfDraw (?c\<lparr>clock := 1000\<rparr>) =
        Some (?c\<lparr>clock := 1000, timers := [],
           messages := [\<lparr>msg_id = ascii ''0.7'', deviceId = ascii ''1'', deviceName = ascii ''Alice's iPhone'',
                         content = ascii ''Hello! I'm connected via Bluetooth.'',
                         timestamp = DateObject (ascii ''t''), sent = False\<rparr>]\<rparr>)"
    using connect_welcome [where device = alice and s = freshPage and k = 0 and t = "?c\<lparr>clock := 1000\<rparr>"
      and rid = "ascii ''0.7''" and now = "ascii ''t''" and u = halfDraw]
    by (simp add: 1 2 5)
  have g: "deliveredWelcomes (ascii ''1'') ?c + pendingWelcomes (ascii ''1'') ?c = 1"
    using connect_welcome [where device = alice and s = freshPage and t = freshPage
      and e = "ClickDeviceButton 0" and t' = ?c and did = "ascii ''1''"]
    by (simp add: freshPage_connect 3 4 del: dispatch.simps connectsOf.simps)
  have h: "dispatch (Elapse 1000) ?c = Some (?c\<lparr>clock := 1000\<rparr>)" by (simp add: 0)
  show ?thesis using e f g h freshPage_connect by (simp add: 0 1 del: dispatch.simps)
qed

section \<open>Properties of the simulated response\<close>

lemma timers_disconnect: "timers (disconnectDevice d t) = timers t"
  by (simp add: disconnectDevice_def)

text \<open>
  C7. A send that passes the guard schedules, after the scroll timer, exactly one response
  timer for the selected device. Its delay is the number the code computes for
  \<open>1000 + Math.random() * 2000\<close>, the product and the sum each rounded to a binary64,
  and it lies between 1.0 and 3.0 seconds, both ends included. The pool of response texts
  is not empty, the index the code computes for
  \<open>Math.floor(Math.random() * responses.length)\<close> is below the length of the pool,
  and the text of a response is one of the pool. Disconnecting the device removes it from
  the connected list and leaves the pending timers and the clock alone, and a pending
  response timer that is due fires in any state, whatever the connected list holds: it
  appends one inbound message on the thread of the device the send was addressed to.
\<close>

theorem send_schedules_response:
  assumes "selectedDevice s = Some sd" and "trim (currentMessage s) \<noteq> []"
  shows "timers (sendMessage rid now u s) =
           timers s @ [\<lparr>due = clock s + 100, callback = ScrollCallback\<rparr>,
                       \<lparr>due = clock s + valueOf (add (number 1000) (multiply (draw u) (number 2000))),
                        callback = ResponseCallback sd\<rparr>]
       \<and> 1 \<le> valueOf (add (number 1000) (multiply (draw u) (number 2000))) / 1000
       \<and> valueOf (add (number 1000) (multiply (draw u) (number 2000))) / 1000 \<le> 3
       \<and> responses \<noteq> []
       \<and> responseIndex u' = nat (mathFloor (multiply (draw u') (number (length responses))))
       \<and> responseIndex u' < length responses
       \<and> responses ! responseIndex u' \<in> set responses
       \<and> timers (disconnectDevice sd t) = timers t
       \<and> clock (disconnectDevice sd t) = clock t
       \<and> connectedDevices (disconnectDevice sd t) = filter (\<lambda>d. dev_id d \<noteq> dev_id sd) (connectedDevices t)
       \<and> (k < length (timers t) \<and> callback (timers t ! k) = ResponseCallback sd \<longrightarrow>
            fireTimer k rid' now' u' t =
              (if due (timers t ! k) \<le> clock t
               then Some (t\<lparr>timers := take k (timers t) @ drop (Suc k) (timers t),
                           messages := messages t @
                             [\<lparr>msg_id = rid', deviceId = dev_id sd, deviceName = dev_name sd,
                               content = responses ! responseIndex u',
                               timestamp = DateObject now', sent = False\<rparr>]\<rparr>)
               else None))"
proof -
  have d: "1000 \<le> valueOf (add (number 1000) (multiply (draw u) (number 2000)))"
    "valueOf (add (number 1000) (multiply (draw u) (number 2000))) \<le> 3000"
    using responseDelay_range [of u] by (simp_all add: responseDelay_def)
  have r: "responses \<noteq> []" using length_responses by auto
  have i: "responseIndex u' < length responses" by (rule responseIndex_less)
  then have m: "responses ! responseIndex u' \<in> set responses" by simp
  have 1: "timers (sendMessage rid now u s) =
           timers s @ [\<lparr>due = clock s + 100, callback = ScrollCallback\<rparr>,
                       \<lparr>due = clock s + valueOf (add (number 1000) (multiply (draw u) (number 2000))),
                        callback = ResponseCallback sd\<rparr>]"
    using assms by (simp add: sendMessage_def setTimeout_def appendMessage_def responseDelay_def)
  have 2: "responseIndex u' = nat (mathFloor (multiply (draw u') (number (length responses))))"
    by (simp add: responseIndex_def)
  have 3: "timers (disconnectDevice sd t) = timers t" "clock (disconnectDevice sd t) = clock t"
    "connectedDevices (disconnectDevice sd t) = filter (\<lambda>d. dev_id d \<noteq> dev_id sd) (connectedDevices t)"
    by (simp_all add: disconnectDevice_def)
  have 4: "k < length (timers t) \<and> callback (timers t ! k) = ResponseCallback sd \<longrightarrow>
            fireTimer k rid' now' u' t =
              (if due (timers t ! k) \<le> clock t
               then Some (t\<lparr>timers := take k (timers t) @ drop (Suc k) (timers t),
                           messages := messages t @
                             [\<lparr>msg_id = rid', deviceId = dev_id sd, deviceName = dev_name sd,
                               content = responses ! responseIndex u',
                               timestamp = DateObject now', sent = False\<rparr>]\<rparr>)
               else None)"
    by (simp add: fireTimer_def responseMessage_def appendMessage_def)
  from d have 5: "1 \<le> valueOf (add (number 1000) (multiply (draw u) (number 2000))) / 1000"
    "valueOf (add (number 1000) (multiply (draw u) (number 2000))) / 1000 \<le> 3"
    by simp_all
  from 1 5 r 2 i m 3 4 show ?thesis by (intro conjI)
qed

lemma trim_hi: "trim (ascii ''hi'') = ascii ''hi''"
  by (simp add: trim_def ascii_def isWhiteSpace_def)

theorem send_schedules_response_witness:
  "selectedDevice (chatting (ascii ''hi'')) = Some (alice\<lparr>dev_connected := True\<rparr>)
   \<and> trim (currentMessage (chatting (ascii ''hi''))) \<noteq> []
   \<and> timers (sendMessage (ascii ''0.5'') (ascii ''t'') halfDraw (chatting (ascii ''hi''))) =
        [\<lparr>due = 1000, callback = WelcomeCallback alice\<rparr>,
         \<lparr>due = 100, callback = ScrollCallback\<rparr>,
         \<lparr>due = 2000, callback = ResponseCallback (alice\<lparr>dev_connected := True\<rparr>)\<rparr>]
   \<and> timers (sendMessage (ascii ''0.5'') (ascii ''t'') topDraw (chatting (ascii ''hi''))) =
        [\<lparr>due = 1000, callback = WelcomeCallback alice\<rparr>,
         \<lparr>due = 100, callback = ScrollCallback\<rparr>,
         \<lparr>due = 3000, callback = ResponseCallback (alice\<lparr>dev_connected := True\<rparr>)\<rparr>]
   \<and> connectedDevices (disconnectDevice (alice\<lparr>dev_connected := True\<rparr>)
         (sendMessage (ascii ''0.5'') (ascii ''t'') halfDraw (chatting (ascii ''hi'')))) = []
   \<and> fireTimer 2 (ascii ''0.9'') (ascii ''t2'') halfDraw
         (disconnectDevice (alice\<lparr>dev_connected := True\<rparr>)
            (sendMessage (ascii ''0.5'') (ascii ''t'') halfDraw (chatting (ascii ''hi'')))) = None
   \<and> map_option (\<lambda>s. map content (messages s))
        (fireTimer 2 (ascii ''0.9'') (ascii ''t2'') halfDraw
           ((disconnectDevice (alice\<lparr>dev_connected := True\<rparr>)
              (sendMessage (ascii ''0.5'') (ascii ''t'') halfDraw (chatting (ascii ''hi''))))
                \<lparr>clock := 2000\<rparr>)) =
        Some [ascii ''hi'', ascii ''No internet needed for this conversation!'']
   \<and> map_option (\<lambda>s. map content (messages s))
        (fireTimer 2 (ascii ''0.9'') (ascii ''t2'') seventhsDraw
           ((disconnectDevice (alice\<lparr>dev_connected := True\<rparr>)
              (sendMessage (ascii ''0.5'') (ascii ''t'') halfDraw (chatting (ascii ''hi''))))
                \<lparr>clock := 2000\<rparr>)) =
        Some [ascii ''hi'', ascii ''Bluetooth messaging works great!'']"
proof -
  let ?a = "alice\<lparr>dev_connected := True\<rparr>"
  let ?s = "chatting (ascii ''hi'')"
  let ?d = "disconnectDevice ?a (sendMessage (ascii ''0.5'') (ascii ''t'') halfDraw ?s)"
  let ?t = "?d\<lparr>clock := 2000\<rparr>"
  have 1: "selectedDevice ?s = Some ?a" by (simp add: chatting_def)
  have 2: "trim (currentMessage ?s) \<noteq> []" by (simp add: chatting_def trim_hi) (simp add: ascii_def)
  have 3: "timers ?s = [\<lparr>due = 1000, callback = WelcomeCallback alice\<rparr>]"
    and 4: "connectedDevices ?s = [?a]" and 5: "messages ?s = []" and 0: "clock ?s = 0"
    by (simp_all add: chatting_def freshPage_def initialState_def)
  have h: "valueOf (add (number 1000) (multiply (draw halfDraw) (number 2000))) = 2000"
    using responseDelay_halfDraw by (simp add: responseDelay_def)
  have p: "valueOf (add (number 1000) (multiply (draw topDraw) (number 2000))) = 3000"
    using responseDelay_topDraw by (simp add: responseDelay_def)
  note th = send_schedules_response [OF 1 2, where rid = "ascii ''0.5''" and now = "ascii ''t''"
      and u = halfDraw and u' = halfDraw and k = 2 and rid' = "ascii ''0.9''" and now' = "ascii ''t2''"]
  note th' = send_schedules_response [OF 1 2, where rid = "ascii ''0.5''" and now = "ascii ''t''"
      and u = topDraw and u' = seventhsDraw and k = 2 and rid' = "ascii ''0.9''" and now' = "ascii ''t2''"]
  have 6: "timers (sendMessage (ascii ''0.5'') (ascii ''t'') halfDraw ?s) =
        [\<lparr>due = 1000, callback = WelcomeCallback alice\<rparr>,
         \<lparr>due = 100, callback = ScrollCallback\<rparr>,
         \<lparr>due = 2000, callback = ResponseCallback ?a\<rparr>]"
    using th [where t = ?t] by (simp add: 0 3 h)
  have w: "timers (sendMessage (ascii ''0.5'') (ascii ''t'') topDraw ?s) =
        [\<lparr>due = 1000, callback = WelcomeCallback alice\<rparr>,
         \<lparr>due = 100, callback = ScrollCallback\<rparr>,
         \<lparr>due = 3000, callback = ResponseCallback ?a\<rparr>]"
    using th' [where t = ?t] by (simp add: 0 3 p)
  have 7: "timers ?d = timers (sendMessage (ascii ''0.5'') (ascii ''t'') halfDraw ?s)"
    by (rule timers_disconnect)
  have c: "clock ?d = 0"
    using 1 2 by (simp add: disconnectDevice_def sendMessage_def setTimeout_def appendMessage_def 0)
  have 8: "messages ?d = [outboundMessage ?a (ascii ''hi'') (ascii ''0.5'') (ascii ''t'')]"
    using 1 2 by (simp add: disconnectDevice_def sendMessage_def setTimeout_def appendMessage_def 5)
      (simp add: chatting_def)
  have 9: "connectedDevices ?d = []"
    using 1 2 by (simp add: disconnectDevice_def sendMessage_def setTimeout_def appendMessage_def 4)
  have e: "fireTimer 2 (ascii ''0.9'') (ascii ''t2'') halfDraw ?d = None"
    using th [where t = ?d] by (simp add: 6 7 c)
  have 10: "fireTimer 2 (ascii ''0.9'') (ascii ''t2'') halfDraw ?t =
      Some (?t\<lparr>timers := take 2 (timers ?t) @ drop (Suc 2) (timers ?t),
                      messages := messages ?t @
                        [\<lparr>msg_id = ascii ''0.9'', deviceId = dev_id ?a, deviceName = dev_name ?a,
                          content = responses ! responseIndex halfDraw,
                          timestamp = DateObject (ascii ''t2''), sent = False\<rparr>]\<rparr>)"
    using th [where t = ?t] by (simp add: 6 7)
  have f: "fireTimer 2 (ascii ''0.9'') (ascii ''t2'') seventhsDraw ?t =
      Some (?t\<lparr>timers := take 2 (timers ?t) @ drop (Suc 2) (timers ?t),
                      messages := messages ?t @
                        [\<lparr>msg_id = ascii ''0.9'', deviceId = dev_id ?a, deviceName = dev_name ?a,
                          content = responses ! responseIndex seventhsDraw,
                          timestamp = DateObject (ascii ''t2''), sent = False\<rparr>]\<rparr>)"
    using th' [where t = ?t] by (simp add: 6 7)
  have 11: "responses ! 3 = ascii ''No internet needed for this conversation!''"
    "responses ! 4 = ascii ''Bluetooth messaging works great!''"
    by (simp_all add: responses_def)
  have 12: "responseIndex seventhsDraw = 4" using responseIndex_seventhsDraw by simp
  show ?thesis
    using 1 2 6 w 9 e
    by (simp add: 10 f 8 11 12 responseIndex_halfDraw outboundMessage_def trim_hi)
qed

section \<open>Properties of snapshots\<close>

lemma hexValue_hexDigit: "n < 16 \<Longrightarrow> hexValue (hexDigit n) = Some n"
proof -
  assume "n < 16"
  then have "n \<in> set [0..<16]" by simp
  moreover have "\<forall>n\<in>set [0..<16]. hexValue (hexDigit n) = Some n"
    by (simp add: upt_rec hexValue_def hexDigit_def)
  ultimately show ?thesis by blast
qed

lemma hex_digits:
  "((n div 4096 * 16 + n div 256 mod 16) * 16 + n div 16 mod 16) * 16 + n mod 16 = (n :: nat)"
proof -
  have 1: "n div 256 = n div 16 div 16" by (simp add: div_mult2_eq [symmetric])
  have 2: "n div 4096 = n div 16 div 16 div 16" by (simp add: div_mult2_eq [symmetric])
  show ?thesis by (simp add: 1 2)
qed

lemma hex4_unicodeEscape:
  "hex4 (hexDigit (unat c div 4096)) (hexDigit (unat c div 256 mod 16))
        (hexDigit (unat c div 16 mod 16)) (hexDigit (unat c mod 16)) = Some c"
proof -
  have "unat c < 2 ^ 16" using unsigned_less [of c, where ?'a = nat] by simp
  then have "unat c div 4096 < 16" by simp
  then have v: "hexValue (hexDigit (unat c div 4096)) = Some (unat c div 4096)"
    "hexValue (hexDigit (unat c div 256 mod 16)) = Some (unat c div 256 mod 16)"
    "hexValue (hexDigit (unat c div 16 mod 16)) = Some (unat c div 16 mod 16)"
    "hexValue (hexDigit (unat c mod 16)) = Some (unat c mod 16)"
    by (simp_all add: hexValue_hexDigit)
  have "(word_of_nat (((unat c div 4096 * 16 + unat c div 256 mod 16) * 16 + unat c div 16 mod 16) * 16
           + unat c mod 16) :: 16 word) = word_of_nat (unat c)"
    by (simp only: hex_digits)
  then show ?thesis
    unfolding hex4_def v by (simp del: of_nat_add of_nat_mult)
qed

lemma consResult_Some: "consResult x (Some (xs, r)) = Some (x # xs, r)"
  by (simp add: consResult_def)

lemma surrogate_raw:
  "isLeadSurrogate c \<or> isTrailSurrogate c \<Longrightarrow> c \<noteq> 34 \<and> c \<noteq> 92 \<and> \<not> c < 32"
  by (auto simp: isLeadSurrogate_def isTrailSurrogate_def word_le_nat_alt word_less_nat_alt)

lemma parseChars_quoteUnit: "parseChars (quoteUnit c @ t) = consResult c (parseChars t)"
  by (simp add: quoteUnit_def unicodeEscape_def unescape_def hex4_unicodeEscape)

lemma parseChars_quoteChars: "parseChars (quoteChars s @ 34 # rest) = Some (s, rest)"
proof (induction s rule: quoteChars.induct)
  case 1
  show ?case by simp
next
  case (2 c)
  show ?case using parseChars_quoteUnit [of c "34 # rest"] by (simp add: consResult_Some)
next
  case (3 c d cs)
  show ?case
  proof (cases "isLeadSurrogate c \<and> isTrailSurrogate d")
    case True
    with surrogate_raw [of c] surrogate_raw [of d] 3 show ?thesis
      by (simp add: consResult_Some)
  next
    case False
    then have q: "quoteChars (c # d # cs) = quoteUnit c @ quoteChars (d # cs)" by auto
    from False 3 have "parseChars (quoteChars (d # cs) @ 34 # rest) = Some (d # cs, rest)" by blast
    then show ?thesis
      by (simp only: q append_assoc parseChars_quoteUnit consResult_Some)
  qed
qed

lemma serializeJSON_start:
  "numberFree v \<Longrightarrow> \<exists>c cs. serializeJSON v = c # cs \<and> valueStart c"
  by (cases v) (auto simp: ascii_def quoteJSONString_def valueStart_def)

lemma skipWs_start: "valueStart c \<Longrightarrow> skipWs (c # cs) = c # cs"
  by (auto simp: skipWs_def isJSONWhiteSpace_def valueStart_def)

lemma skipWs_punct: "c = 44 \<or> c = 58 \<or> c = 93 \<or> c = 125 \<or> c = 34 \<Longrightarrow> skipWs (c # cs) = c # cs"
  by (auto simp: skipWs_def isJSONWhiteSpace_def)

lemma commaSep_Cons: "ys \<noteq> [] \<Longrightarrow> commaSep (x # ys) = x @ 44 # commaSep ys"
  by (cases ys) simp_all

lemma parseElements_serialize:
  assumes "vs \<noteq> []" and "\<forall>v\<in>set vs. parsesBack v"
    and "length (commaSep (map serializeJSON vs)) < n"
  shows "parseElements n (commaSep (map serializeJSON vs) @ 93 # rest) = Some (vs, rest)"
  using assms
proof (induction vs arbitrary: n rule: list_nonempty_induct)
  case (single v)
  then obtain m where n: "n = Suc m" by (cases n) auto
  with single have "parseValue m (serializeJSON v @ 93 # rest) = Some (v, 93 # rest)"
    by (simp add: parsesBack_def)
  then show ?case by (simp add: n skipWs_punct)
next
  case (cons v vs)
  then obtain m where n: "n = Suc m" by (cases n) auto
  have c: "commaSep (serializeJSON v # map serializeJSON vs) = serializeJSON v @ 44 # commaSep (map serializeJSON vs)"
    using cons.hyps by (simp add: commaSep_Cons)
  with cons.prems n have l: "length (serializeJSON v) \<le> m" "length (commaSep (map serializeJSON vs)) < m"
    by simp_all
  with cons.prems have "parseValue m (serializeJSON v @ 44 # commaSep (map serializeJSON vs) @ 93 # rest)
      = Some (v, 44 # commaSep (map serializeJSON vs) @ 93 # rest)"
    by (simp add: parsesBack_def)
  moreover have "parseElements m (commaSep (map serializeJSON vs) @ 93 # rest) = Some (vs, rest)"
    using cons.IH [OF _ l(2)] cons.prems by simp
  ultimately show ?case by (simp add: n c skipWs_punct consResult_Some)
qed

lemma parseMembers_serialize:
  assumes "ms \<noteq> []" and "\<forall>kv\<in>set ms. parsesBack (snd kv)"
    and "length (commaSep (map memberText ms)) < n"
  shows "parseMembers n (commaSep (map memberText ms) @ 125 # rest) = Some (ms, rest)"
  using assms
proof (induction ms arbitrary: n rule: list_nonempty_induct)
  case (single kv)
  then obtain m where n: "n = Suc m" by (cases n) auto
  obtain k v where kv: "kv = (k, v)" by (cases kv)
  with single n have "parseValue m (serializeJSON v @ 125 # rest) = Some (v, 125 # rest)"
    by (simp add: parsesBack_def memberText_def)
  then show ?case
    by (simp add: n kv memberText_def quoteJSONString_def skipWs_punct parseChars_quoteChars
        del: parseChars.simps)
next
  case (cons kv ms)
  then obtain m where n: "n = Suc m" by (cases n) auto
  obtain k v where kv: "kv = (k, v)" by (cases kv)
  have h: "memberText kv = 34 # quoteChars k @ 34 # 58 # serializeJSON v"
    by (simp add: kv memberText_def quoteJSONString_def)
  have c: "commaSep (memberText kv # map memberText ms) =
      34 # quoteChars k @ 34 # 58 # serializeJSON v @ 44 # commaSep (map memberText ms)"
    using cons.hyps by (simp add: commaSep_Cons h)
  from cons.prems(2) have "length (commaSep (memberText kv # map memberText ms)) < n" by simp
  then have l: "length (serializeJSON v) \<le> m" "length (commaSep (map memberText ms)) < m"
    by (simp_all add: c n)
  with cons.prems kv have "parseValue m (serializeJSON v @ 44 # commaSep (map memberText ms) @ 125 # rest)
      = Some (v, 44 # commaSep (map memberText ms) @ 125 # rest)"
    by (simp add: parsesBack_def)
  moreover have "parseMembers m (commaSep (map memberText ms) @ 125 # rest) = Some (ms, rest)"
    using cons.IH [OF _ l(2)] cons.prems by simp
  ultimately show ?case
    by (simp add: n c skipWs_punct parseChars_quoteChars consResult_Some kv [symmetric]
        del: parseChars.simps)
qed

lemma parsesBack_atoms:
  "parsesBack JNull" "parsesBack (JBool b)" "parsesBack (JString str)"
proof -
  show "parsesBack JNull"
    unfolding parsesBack_def
  proof (intro allI impI)
    fix n rest assume "length (serializeJSON JNull) \<le> n"
    then obtain m where "n = Suc m" by (cases n) (auto simp: ascii_def)
    then show "parseValue n (serializeJSON JNull @ rest) = Some (JNull, rest)"
      by (simp add: ascii_def skipWs_def isJSONWhiteSpace_def)
  qed
  show "parsesBack (JBool b)"
    unfolding parsesBack_def
  proof (intro allI impI)
    fix n rest assume "length (serializeJSON (JBool b)) \<le> n"
    then obtain m where "n = Suc m" by (cases n; cases b) (auto simp: ascii_def)
    then show "parseValue n (serializeJSON (JBool b) @ rest) = Some (JBool b, rest)"
      by (cases b) (simp_all add: ascii_def skipWs_def isJSONWhiteSpace_def)
  qed
  show "parsesBack (JString str)"
    unfolding parsesBack_def
  proof (intro allI impI)
    fix n rest assume "length (serializeJSON (JString str)) \<le> n"
    then obtain m where "n = Suc m" by (cases n) (auto simp: quoteJSONString_def)
    then show "parseValue n (serializeJSON (JString str) @ rest) = Some (JString str, rest)"
      by (simp add: quoteJSONString_def skipWs_punct parseChars_quoteChars del: parseChars.simps)
  qed
qed

lemma parsesBack_array:
  assumes "\<forall>v\<in>set vs. numberFree v \<and> parsesBack v"
  shows "parsesBack (JArray vs)"
  unfolding parsesBack_def
proof (intro allI impI)
  fix n rest assume len: "length (serializeJSON (JArray vs)) \<le> n"
  then obtain m where n: "n = Suc m" by (cases n) auto
  show "parseValue n (serializeJSON (JArray vs) @ rest) = Some (JArray vs, rest)"
  proof (cases vs)
    case Nil
    then show ?thesis by (simp add: n skipWs_def isJSONWhiteSpace_def)
  next
    case (Cons v vs')
    with assms obtain c cs where s: "serializeJSON v = c # cs" "valueStart c"
      using serializeJSON_start [of v] by auto
    then have c93: "c \<noteq> 93" by (auto simp: valueStart_def)
    obtain tl where t: "commaSep (map serializeJSON vs) = c # tl"
      using s(1) Cons by (cases vs') simp_all
    from len have l: "length (commaSep (map serializeJSON vs)) < m" by (simp add: n)
    have "parseElements m (commaSep (map serializeJSON vs) @ 93 # rest) = Some (vs, rest)"
      using assms Cons l by (intro parseElements_serialize) auto
    then show ?thesis
      using c93 t s(2) by (simp add: n skipWs_def isJSONWhiteSpace_def valueStart_def) auto
  qed
qed

lemma parsesBack_object:
  assumes "\<forall>kv\<in>set ms. parsesBack (snd kv)"
  shows "parsesBack (JObject ms)"
  unfolding parsesBack_def
proof (intro allI impI)
  fix n rest assume len: "length (serializeJSON (JObject ms)) \<le> n"
  then obtain m where n: "n = Suc m" by (cases n) auto
  have mt: "(\<lambda>kv. quoteJSONString (fst kv) @ 58 # serializeJSON (snd kv)) = memberText"
    by (rule ext) (simp add: memberText_def)
  show "parseValue n (serializeJSON (JObject ms) @ rest) = Some (JObject ms, rest)"
  proof (cases ms)
    case Nil
    then show ?thesis by (simp add: n skipWs_def isJSONWhiteSpace_def)
  next
    case (Cons kv ms')
    obtain tl where t: "commaSep (map memberText ms) = 34 # tl"
      using Cons by (cases ms') (simp_all add: memberText_def quoteJSONString_def)
    from len have l: "length (commaSep (map memberText ms)) < m" by (simp add: n mt)
    have "parseMembers m (commaSep (map memberText ms) @ 125 # rest) = Some (ms, rest)"
      using assms Cons l by (intro parseMembers_serialize) auto
    then show ?thesis
      using t by (simp add: n mt skipWs_def isJSONWhiteSpace_def)
  qed
qed

lemma parseValue_serializeJSON: "numberFree v \<Longrightarrow> parsesBack v"
proof (induction v)
  case JNull
  show ?case by (rule parsesBack_atoms)
next
  case (JBool b)
  show ?case by (rule parsesBack_atoms)
next
  case (JNumber lit)
  then show ?case by simp
next
  case (JString str)
  show ?case by (rule parsesBack_atoms)
next
  case (JArray vs)
  then show ?case by (intro parsesBack_array) (auto simp: list_all_iff)
next
  case (JObject ms)
  have "\<forall>kv\<in>set ms. parsesBack (snd kv)"
  proof
    fix kv assume m: "kv \<in> set ms"
    obtain k v where kv: "kv = (k, v)" by (cases kv)
    with m JObject.prems have "numberFree v" by (auto simp: list_all_iff)
    with JObject.IH [of kv v] m kv show "parsesBack (snd kv)" by simp
  qed
  then show ?case by (rule parsesBack_object)
qed

lemma parseJSON_serializeJSON: "numberFree v \<Longrightarrow> parseJSON (serializeJSON v) = Some v"
proof -
  assume "numberFree v"
  then have "parsesBack v" by (rule parseValue_serializeJSON)
  then have "parseValue (2 * length (serializeJSON v) + 2) (serializeJSON v @ []) = Some (v, [])"
    unfolding parsesBack_def by (metis le_add1 mult_2 add.assoc)
  then show ?thesis by (simp add: parseJSON_def skipWs_def)
qed

lemma messageOfJson_jsonOfMessage: "messageOfJson (jsonOfMessage m) = Some (revived m)"
  by (simp add: messageOfJson_def jsonOfMessage_def stringMember_def boolMember_def revived_def)

lemma those_messages: "those (map messageOfJson (map jsonOfMessage ms)) = Some (map revived ms)"
  by (induction ms) (simp_all add: messageOfJson_jsonOfMessage)

lemma numberFree_messages: "numberFree (JArray (map jsonOfMessage ms))"
  by (simp add: list_all_iff jsonOfMessage_def)

lemma revived_fields:
  "msg_id (revived m) = msg_id m" "deviceId (revived m) = deviceId m"
  "deviceName (revived m) = deviceName m" "content (revived m) = content m"
  "sent (revived m) = sent m" "isoText (timestamp (revived m)) = isoText (timestamp m)"
  by (simp_all add: revived_def isoText_def)

text \<open>
  The text the save effect stores for a log of one message, and texts as
  \<open>JSON.parse\<close> reads and refuses them.
\<close>

lemma saveEffect_text:
  "saveEffect (appendMessage (welcomeMessage alice (ascii ''0.25'') (ascii ''2024-05-01T10:00:00.000Z'')) initialState)
     = Some (jsonText ''[{^id^:^0.25^,^deviceId^:^1^,^deviceName^:^Alice's iPhone^,^content^:^Hello! I'm connected via Bluetooth.^,^timestamp^:^2024-05-01T10:00:00.000Z^,^sent^:false}]'')"
  by (simp add: saveEffect_def appendMessage_def welcomeMessage_def alice_def initialState_def
      jsonOfMessage_def isoText_def quoteJSONString_def quoteUnit_def isLeadSurrogate_def
      isTrailSurrogate_def jsonText_def ascii_def)

lemma parseJSON_example:
  "parseJSON (jsonText '' [ { ^a^ : ^x~u0041~n~^^ , ^b^ : [ true , null , -1.5e3 ] } ] '')
     = Some (JArray [JObject [(ascii ''a'', JString (ascii ''xA'' @ [10, 34])),
                              (ascii ''b'', JArray [JBool True, JNull, JNumber (ascii ''-1.5e3'')])]])"
  by code_simp

lemma parseJSON_refuses:
  "parseJSON (jsonText ''[1,]'') = None" "parseJSON (jsonText ''{^a^:1,}'') = None"
  "parseJSON (jsonText ''[01]'') = None" "parseJSON (jsonText ''[^a'') = None"
  by code_simp+

text \<open>
  C8. For every message log, the mount effect run on what the save effect stored does
  not fail and yields the saved messages in the saved order, each with the id, the
  content, the device id and name, the direction and the date text it had (the date is
  a string after the load); and with nothing in storage the mount effect does not fail
  and leaves the log empty.
\<close>

theorem snapshot_round_trip:
  "mountEffect hasBluetooth (saveEffect s) initialState =
     Inr (initialState\<lparr>bluetoothSupported := hasBluetooth, messages := map revived (messages s),
                       devices := simulatedDevices\<rparr>)
   \<and> map msg_id (map revived (messages s)) = map msg_id (messages s)
   \<and> map content (map revived (messages s)) = map content (messages s)
   \<and> map deviceId (map revived (messages s)) = map deviceId (messages s)
   \<and> map deviceName (map revived (messages s)) = map deviceName (messages s)
   \<and> map sent (map revived (messages s)) = map sent (messages s)
   \<and> map (\<lambda>m. isoText (timestamp m)) (map revived (messages s)) = map (\<lambda>m. isoText (timestamp m)) (messages s)
   \<and> mountEffect hasBluetooth None initialState =
       Inr (initialState\<lparr>bluetoothSupported := hasBluetooth, devices := simulatedDevices\<rparr>)
   \<and> messages (initialState\<lparr>bluetoothSupported := hasBluetooth, devices := simulatedDevices\<rparr>) = []"
proof -
  let ?v = "JArray (map jsonOfMessage (messages s))"
  have 1: "parseJSON (serializeJSON ?v) = Some ?v"
    by (rule parseJSON_serializeJSON [OF numberFree_messages])
  have 2: "serializeJSON ?v \<noteq> []" by simp
  have 3: "messagesOfJson ?v = Some (map revived (messages s))"
    using those_messages [of "messages s"] by (simp add: messagesOfJson_def del: map_map)
  have "mountEffect hasBluetooth (saveEffect s) initialState =
     Inr (initialState\<lparr>bluetoothSupported := hasBluetooth, messages := map revived (messages s),
                       devices := simulatedDevices\<rparr>)"
    unfolding mountEffect_def saveEffect_def Let_def using 2 by (simp add: 1 3 del: serializeJSON.simps)
  then show ?thesis
    by (simp add: revived_fields comp_def) (simp add: mountEffect_def initialState_def)
qed

theorem snapshot_round_trip_witness:
  "mountEffect True
     (saveEffect (initialState\<lparr>messages :=
        [welcomeMessage alice (ascii ''0.25'') (ascii ''2024-05-01T10:00:00.000Z''),
         outboundMessage alice [104, 34, 92, 10, 55357, 56832, 56832, 31] (ascii ''0.5'')
           (ascii ''2024-05-01T10:00:01.000Z'')]\<rparr>))
     initialState =
     Inr (initialState
       \<lparr>bluetoothSupported := True,
        messages :=
          [\<lparr>msg_id = ascii ''0.25'', deviceId = ascii ''1'', deviceName = ascii ''Alice's iPhone'',
            content = ascii ''Hello! I'm connected via Bluetooth.'',
            timestamp = DateString (ascii ''2024-05-01T10:00:00.000Z''), sent = False\<rparr>,
           \<lparr>msg_id = ascii ''0.5'', deviceId = ascii ''1'', deviceName = ascii ''Alice's iPhone'',
            content = [104, 34, 92, 10, 55357, 56832, 56832, 31],
            timestamp = DateString (ascii ''2024-05-01T10:00:01.000Z''), sent = True\<rparr>],
        devices := simulatedDevices\<rparr>)"
proof -
  have t: "trim [104, 34, 92, 10, 55357, 56832, 56832, 31] = [104, 34, 92, 10, 55357, 56832, 56832, 31]"
    by (simp add: trim_def isWhiteSpace_def)
  from snapshot_round_trip [of True "initialState\<lparr>messages :=
        [welcomeMessage alice (ascii ''0.25'') (ascii ''2024-05-01T10:00:00.000Z''),
         outboundMessage alice [104, 34, 92, 10, 55357, 56832, 56832, 31] (ascii ''0.5'')
           (ascii ''2024-05-01T10:00:01.000Z'')]\<rparr>"]
  show ?thesis
    by (simp add: revived_def welcomeMessage_def outboundMessage_def alice_def isoText_def t)
qed

section \<open>Properties of the selection\<close>

lemma dispatch_selectionOk:
  assumes "dispatch e s = Some s'" and "selectionOk s"
  shows "selectionOk s'"
proof (cases e)
  case ClickScan
  with assms show ?thesis
    by (auto simp: selectionOk_def scanForDevices_def setTimeout_def Let_def
        split: if_splits requestOutcome.splits option.splits)
next
  case (RequestSettles outcome rid)
  with assms show ?thesis
    by (auto simp: selectionOk_def scanSettled_def setTimeout_def Let_def
        split: if_splits requestOutcome.splits option.splits)
next
  case (ClickDeviceButton i)
  with assms show ?thesis
    by (auto simp: selectionOk_def connectToDevice_def setTimeout_def disconnectDevice_def Let_def
        split: if_splits option.splits)
next
  case (ClickConnectedRow i)
  with assms show ?thesis
    by (auto simp: selectionOk_def setSelectedDevice_def split: if_splits option.splits)
next
  case (ChangeInput v)
  with assms show ?thesis
    by (auto simp: selectionOk_def setCurrentMessage_def split: if_splits option.splits)
next
  case (SubmitMessage rid now u)
  with assms show ?thesis
    by (auto simp: selectionOk_def sendMessage_def setTimeout_def appendMessage_def split: if_splits option.splits)
next
  case (TimerFires k rid now u)
  with assms show ?thesis
    by (auto simp: selectionOk_def fireTimer_def runCallback_fields split: if_splits option.splits)
next
  case (Elapse ms)
  with assms show ?thesis by (auto simp: selectionOk_def split: if_splits option.splits)
qed

lemma reachable_selectionOk: "reachable s \<Longrightarrow> selectionOk s"
proof (induction rule: reachable.induct)
  case (mounted hasBluetooth loaded)
  show ?case by (simp add: selectionOk_def initialState_def)
next
  case (step s e s')
  from step.hyps(2) step.IH show ?case by (rule dispatch_selectionOk)
qed

text \<open>
  The setter of the selection takes any device: given one that is not connected it does
  not fail and the selection changes.
\<close>

theorem setSelectedDevice_counterexample:
  "stranger \<notin> set (connectedDevices freshPage)
   \<and> selectedDevice freshPage = None
   \<and> selectedDevice (setSelectedDevice (Some stranger) freshPage) = Some stranger"
  by (simp add: setSelectedDevice_def freshPage_def initialState_def)

text \<open>
  C5, as the code has it. In every state the page reaches, the selection is unset or
  is an entry of the connected list. \<open>disconnectDevice\<close> removes every entry with the
  id of its device from the connected list and clears the selection when the selected
  device has that id; another selection stays, and stays connected. The setter of the
  selection has no check and no error: the page calls it only from the rows of the
  connected list, so a click selects the device of an existing row, and a row that does
  not exist delivers no event.
\<close>

theorem selection_connected:
  assumes "reachable s"
  shows "(selectedDevice s = None \<or> (\<exists>sd\<in>set (connectedDevices s). selectedDevice s = Some sd))
       \<and> dev_id device \<notin> dev_id ` set (connectedDevices (disconnectDevice device s))
       \<and> (\<forall>sd. selectedDevice s = Some sd \<and> dev_id sd = dev_id device \<longrightarrow>
             selectedDevice (disconnectDevice device s) = None)
       \<and> (\<forall>sd. selectedDevice s = Some sd \<and> dev_id sd \<noteq> dev_id device \<longrightarrow>
             selectedDevice (disconnectDevice device s) = Some sd
             \<and> sd \<in> set (connectedDevices (disconnectDevice device s)))
       \<and> (\<forall>i s'. dispatch (ClickConnectedRow i) s = Some s' \<longrightarrow>
             i < length (connectedDevices s) \<and> selectedDevice s' = Some (connectedDevices s ! i))
       \<and> (\<forall>i. length (connectedDevices s) \<le> i \<longrightarrow> dispatch (ClickConnectedRow i) s = None)"
proof -
  have ok: "selectionOk s" using assms by (rule reachable_selectionOk)
  then show ?thesis
    by (auto simp: selectionOk_def disconnectDevice_def setSelectedDevice_def split: if_splits option.splits)
qed

lemma chatting_disconnect:
  "dispatch (ClickDeviceButton 0) (chatting text) =
     Some (disconnectDevice (alice\<lparr>dev_connected := True\<rparr>) (chatting text))"
  by (simp add: chatting_def freshPage_def initialState_def Let_def)

theorem selection_connected_witness:
  "reachable (chatting (ascii ''hi''))
   \<and> selectedDevice (chatting (ascii ''hi'')) = Some (alice\<lparr>dev_connected := True\<rparr>)
   \<and> connectedDevices (chatting (ascii ''hi'')) = [alice\<lparr>dev_connected := True\<rparr>]
   \<and> connectedDevices (disconnectDevice (alice\<lparr>dev_connected := True\<rparr>) (chatting (ascii ''hi''))) = []
   \<and> selectedDevice (disconnectDevice (alice\<lparr>dev_connected := True\<rparr>) (chatting (ascii ''hi''))) = None
   \<and> dev_id (alice\<lparr>dev_connected := True\<rparr>) \<noteq> dev_id stranger
   \<and> selectedDevice (disconnectDevice stranger (chatting (ascii ''hi'')))
       = Some (alice\<lparr>dev_connected := True\<rparr>)
   \<and> dispatch (ClickConnectedRow 0) (chatting (ascii ''hi''))
       = Some (setSelectedDevice (Some (alice\<lparr>dev_connected := True\<rparr>)) (chatting (ascii ''hi'')))
   \<and> reachable (disconnectDevice (alice\<lparr>dev_connected := True\<rparr>) (chatting (ascii ''hi'')))
   \<and> length (connectedDevices (disconnectDevice (alice\<lparr>dev_connected := True\<rparr>) (chatting (ascii ''hi'')))) \<le> 0
   \<and> dispatch (ClickConnectedRow 0)
         (disconnectDevice (alice\<lparr>dev_connected := True\<rparr>) (chatting (ascii ''hi''))) = None"
proof -
  let ?a = "alice\<lparr>dev_connected := True\<rparr>"
  let ?s = "chatting (ascii ''hi'')"
  let ?t = "disconnectDevice ?a ?s"
  have r: "reachable ?s" by (rule reachable_chatting) (simp add: ascii_def)
  have r2: "reachable ?t" using r chatting_disconnect by (rule reachable.step)
  have 1: "selectedDevice ?s = Some ?a" and 2: "connectedDevices ?s = [?a]"
    by (simp_all add: chatting_def freshPage_def initialState_def)
  have 3: "connectedDevices ?t = []"
    by (simp add: disconnectDevice_def 2)
  have 4: "selectedDevice ?t = None"
    using selection_connected [OF r, of ?a] 1 by simp
  have 5: "dispatch (ClickConnectedRow 0) ?t = None"
    using selection_connected [OF r2, of ?a] 3 by (simp del: dispatch.simps)
  have 6: "dev_id ?a \<noteq> dev_id stranger" by (simp add: alice_def stranger_def ascii_def)
  have 7: "selectedDevice (disconnectDevice stranger ?s) = Some ?a"
    using selection_connected [OF r, of stranger] 1 6 by simp
  have 8: "dispatch (ClickConnectedRow 0) ?s = Some (setSelectedDevice (Some ?a) ?s)"
    by (simp add: 2)
  have 9: "length (connectedDevices ?t) \<le> 0" by (simp add: 3)
  from r 1 2 3 4 6 7 8 r2 9 5 show ?thesis by (intro conjI)
qed

section \<open>Properties of message ids\<close>






end
